(* ===== verification/Prelude.thy ===== *)
theory Prelude
  imports Main "HOL-Library.List_Lexorder" "HOL-Library.Char_ord" "HOL-Library.Word"
begin

text \<open>
  Shared vocabulary of the development. It holds the outcome type of a C++ call that may
  run into undefined behaviour (a fault) or out of fuel, its sequencing operation, the
  ordered string set \<^verbatim>\<open>std::set<std::string>\<close> with the interface it offers its clients, and
  the generic list lemmas the components share.
\<close>

section \<open>Outcomes of calls\<close>

text \<open>
  A call returns \<open>Inr\<close> of its result, or \<open>Inl\<close> of the first fault it meets. The faults
  are the undefined behaviours the sources can reach; \<open>OutOfFuel\<close> is the artefact of the
  fuelled recursion and every client component proves how much fuel rules it out.
\<close>

datatype fault =
    NullStub            \<comment> \<open>\<^verbatim>\<open>stub_->\<close> with a null stub\<close>
  | NullStream          \<comment> \<open>\<^verbatim>\<open>stream_->\<close> or \<^verbatim>\<open>rpc->\<close> with a null stream\<close>
  | NullQueue           \<comment> \<open>\<^verbatim>\<open>request_queue_->\<close> with a null queue\<close>
  | PopEmptyQueue       \<comment> \<open>\<^verbatim>\<open>std::queue::pop\<close> on an empty queue\<close>
  | DanglingWatcher     \<comment> \<open>a \<^verbatim>\<open>Watcher*\<close> whose object is gone\<close>
  | NullSubscription    \<comment> \<open>a null \<^verbatim>\<open>std::shared_ptr<Subscription>\<close>\<close>
  | NullInstance        \<comment> \<open>the null \<^verbatim>\<open>IstioLinkManager::instance\<close>\<close>
  | ArrayOverrun        \<comment> \<open>an index outside a C array\<close>
  | NullResource        \<comment> \<open>\<^verbatim>\<open>*resource_\<close> with a null message\<close>
  | NullServer          \<comment> \<open>\<^verbatim>\<open>server->\<close> with a null server\<close>
  | OutOfFuel

text \<open>
  A stateful call pairs the fault with the state it was met in, so that what happened before
  the fault (and, for \<open>OutOfFuel\<close>, the part of the run the fuel sufficed for) stays visible.
\<close>

type_synonym 's call = "(fault \<times> 's) + 's"

definition bind_res :: "'e + 'a \<Rightarrow> ('a \<Rightarrow> 'e + 'b) \<Rightarrow> 'e + 'b" where
  "bind_res r f = (case r of Inl e \<Rightarrow> Inl e | Inr x \<Rightarrow> f x)"

lemma bind_res_simps [simp]:
  "bind_res (Inl e) f = Inl e"
  "bind_res (Inr x) f = f x"
  by (simp_all add: bind_res_def)

lemma bind_res_cong [fundef_cong]:
  "r = r' \<Longrightarrow> (\<And>x. r' = Inr x \<Longrightarrow> f x = f' x) \<Longrightarrow> bind_res r f = bind_res r' f'"
  by (cases r') simp_all

lemma bind_res_InrE:
  assumes "bind_res r f = Inr y"
  obtains x where "r = Inr x" and "f x = Inr y"
  using assms by (cases r) auto

lemma bind_res_Inr_iff: "bind_res r f = Inr y \<longleftrightarrow> (\<exists>x. r = Inr x \<and> f x = Inr y)"
  by (cases r) auto

lemma bind_res_Inl_iff:
  "bind_res r f = Inl e \<longleftrightarrow> r = Inl e \<or> (\<exists>x. r = Inr x \<and> f x = Inl e)"
  by (cases r) auto

lemma bind_res_assoc: "bind_res (bind_res r f) g = bind_res r (\<lambda>x. bind_res (f x) g)"
  by (cases r) auto

text \<open>The state a call ends in, normally or at a fault.\<close>

fun final :: "'s call \<Rightarrow> 's" where
  "final (Inl es) = snd es"
| "final (Inr s) = s"

definition halt :: "fault \<Rightarrow> 's \<Rightarrow> 's call" where
  "halt e s = Inl (e, s)"

lemma final_halt [simp]: "final (halt e s) = s"
  by (simp add: halt_def)

lemma halt_neq_Inr [simp]: "halt e s \<noteq> Inr s'" "Inr s' \<noteq> halt e s"
  by (simp_all add: halt_def)

lemma bind_res_halt [simp]: "bind_res (halt e s) f = halt e s"
  by (simp add: halt_def)

lemma halt_eq_Inl [simp]: "halt e s = Inl p \<longleftrightarrow> p = (e, s)"
  by (auto simp: halt_def)

text \<open>
  A reflexive and transitive relation that every part of a sequence of calls keeps is kept
  by the sequence, whether it ends normally or at a fault.
\<close>

lemma final_bind:
  assumes "transp R" and "R s (final r)" and "\<And>s1. r = Inr s1 \<Longrightarrow> R s1 (final (f s1))"
  shows "R s (final (bind_res r f))"
proof (cases r)
  case (Inl p)
  with assms(2) show ?thesis by simp
next
  case (Inr s1)
  with assms(2) have "R s s1" by simp
  moreover from Inr have "R s1 (final (f s1))" by (rule assms(3))
  ultimately have "R s (final (f s1))" by (rule transpD [OF assms(1)])
  with Inr show ?thesis by simp
qed

named_theorems client_simps \<open>unfolding rules of the elementary client steps\<close>
named_theorems rpc_simps \<open>evaluation rules of the scripted transports used in witnesses\<close>

section \<open>Ordered string sets\<close>

text \<open>
  What the code relies on of \<^verbatim>\<open>std::set<std::string>\<close>: insertion ignores an element that is
  present, iteration visits every element once in ascending order of the bytes.
\<close>

locale ordered_set =
  fixes empty_s :: "'s"
    and insert_s :: "'a::linorder \<Rightarrow> 's \<Rightarrow> 's"
    and member_s :: "'a \<Rightarrow> 's \<Rightarrow> bool"
    and iterate :: "'s \<Rightarrow> 'a list"
    and invar_s :: "'s \<Rightarrow> bool"
  assumes invar_empty: "invar_s empty_s"
    and invar_insert: "invar_s s \<Longrightarrow> invar_s (insert_s x s)"
    and iterate_empty: "iterate empty_s = []"
    and elems_insert: "invar_s s \<Longrightarrow> set (iterate (insert_s x s)) = insert x (set (iterate s))"
    and member_iff: "invar_s s \<Longrightarrow> member_s x s \<longleftrightarrow> x \<in> set (iterate s)"
    and iterate_sorted: "invar_s s \<Longrightarrow> sorted (iterate s) \<and> distinct (iterate s)"
begin

lemma invar_insert_all: "invar_s s \<Longrightarrow> invar_s (fold insert_s xs s)"
  by (induction xs arbitrary: s) (simp_all add: invar_insert)

lemma elems_insert_all:
  "invar_s s \<Longrightarrow> set (iterate (fold insert_s xs s)) = set (iterate s) \<union> set xs"
  by (induction xs arbitrary: s) (auto simp: invar_insert elems_insert)

lemma iterate_canonical:
  assumes "invar_s s" and "invar_s s'" and "set (iterate s) = set (iterate s')"
  shows "iterate s = iterate s'"
  using assms iterate_sorted [of s] iterate_sorted [of s'] by (metis sorted_distinct_set_unique)

lemma iterate_insert_all:
  "iterate (fold insert_s xs empty_s) = sorted_list_of_set (set xs)"
proof -
  have "invar_s (fold insert_s xs empty_s)"
    by (rule invar_insert_all [OF invar_empty])
  then have "sorted (iterate (fold insert_s xs empty_s))"
    and "distinct (iterate (fold insert_s xs empty_s))"
    and "set (iterate (fold insert_s xs empty_s)) = set xs"
    using iterate_sorted elems_insert_all [OF invar_empty, of xs]
    by (auto simp: iterate_empty)
  then show ?thesis
    by (metis sorted_list_of_set.idem_if_sorted_distinct)
qed

end

text \<open>
  The model's representation: the ascending list of the elements. \<^verbatim>\<open>std::string\<close> compares
  bytes as unsigned values, which is the lexicographic order on \<^typ>\<open>string\<close> given by
  \<^verbatim>\<open>Char_ord\<close> and \<^verbatim>\<open>List_Lexorder\<close>.
\<close>

type_synonym std_set = "string list"

definition std_set_insert :: "string \<Rightarrow> std_set \<Rightarrow> std_set" where
  "std_set_insert x xs = (if x \<in> set xs then xs else insort x xs)"

definition std_set_of :: "string list \<Rightarrow> std_set" where
  "std_set_of xs = fold std_set_insert xs []"

definition std_set_ok :: "std_set \<Rightarrow> bool" where
  "std_set_ok xs \<longleftrightarrow> sorted xs \<and> distinct xs"

interpretation sset: ordered_set "[]" std_set_insert "\<lambda>x xs. x \<in> set xs" "\<lambda>xs. xs" std_set_ok
  by unfold_locales
    (auto simp: std_set_ok_def std_set_insert_def set_insort_key sorted_insort distinct_insort)

lemma std_set_of_ok [simp]: "std_set_ok (std_set_of xs)"
  unfolding std_set_of_def by (rule sset.invar_insert_all [OF sset.invar_empty])

lemma set_std_set_of [simp]: "set (std_set_of xs) = set xs"
  unfolding std_set_of_def by (simp add: sset.elems_insert_all [OF sset.invar_empty])

lemma std_set_of_id: "std_set_ok xs \<Longrightarrow> std_set_of xs = xs"
  by (rule sset.iterate_canonical) simp_all

lemma std_set_of_eq_iff: "std_set_of xs = std_set_of ys \<longleftrightarrow> set xs = set ys"
  by (metis set_std_set_of sset.iterate_canonical std_set_of_ok)

section \<open>C arrays\<close>

text \<open>Reading and writing an element; \<open>None\<close> where the index is outside the array.\<close>

definition array_at :: "int \<Rightarrow> 'a list \<Rightarrow> 'a option" where
  "array_at i xs = (if 0 \<le> i \<and> i < int (length xs) then Some (xs ! nat i) else None)"

definition array_put :: "int \<Rightarrow> 'a \<Rightarrow> 'a list \<Rightarrow> 'a list option" where
  "array_put i v xs = (if 0 \<le> i \<and> i < int (length xs) then Some (xs[nat i := v]) else None)"

lemma array_at_nat [simp]: "k < length xs \<Longrightarrow> array_at (int k) xs = Some (xs ! k)"
  by (simp add: array_at_def)

lemma array_put_nat [simp]: "k < length xs \<Longrightarrow> array_put (int k) v xs = Some (xs[k := v])"
  by (simp add: array_put_def)

text \<open>An array filled from the left.\<close>

lemma filled_snoc:
  "k < length xs \<Longrightarrow> take (Suc k) (xs[k := v]) = take k xs @ [v]"
  "k < n \<Longrightarrow> drop n (xs[k := v]) = drop n xs"
  by (simp_all add: take_Suc_conv_app_nth)

section \<open>Lists\<close>

lemma remove1_notin_distinct: "distinct xs \<Longrightarrow> x \<notin> set (remove1 x xs)"
  by simp

lemma takeWhile_append_hit: "\<exists>x\<in>set xs. \<not> P x \<Longrightarrow> takeWhile P (xs @ ys) = takeWhile P xs"
  by (induction xs) auto

end
