(* ===== verification/Discovery_Messages.thy ===== *)
theory Discovery_Messages
  imports Prelude
begin

text \<open>
  The protocol messages the client builds and reads, as the accessors generated from
  \<^verbatim>\<open>schema/proto\<close> present them to the C++ code: \<^verbatim>\<open>DiscoveryRequest\<close>, \<^verbatim>\<open>DiscoveryResponse\<close>, \<^verbatim>\<open>Node\<close>,
  \<^verbatim>\<open>Struct\<close>, \<^verbatim>\<open>Any\<close> and \<^verbatim>\<open>Resource\<close>, with the fields the code touches. A scalar field that is
  unset reads as the empty string, a message field has presence and is an option. The
  theory also models the builders of the client's own node and of its first request.
\<close>

section \<open>Messages\<close>

datatype pb_value = KindNotSet | StringValue string

type_synonym pb_struct = "string \<rightharpoonup> pb_value"

record locality =
  loc_region :: string
  loc_zone :: string
  loc_sub_zone :: string

record node =
  node_id :: string
  node_cluster :: string
  node_metadata :: "pb_struct option"
  node_locality :: "locality option"
  node_user_agent_name :: string

record rpc_status =
  status_code :: int
  status_message :: string

record any_msg =
  any_type_url :: string
  any_value :: string

record discovery_request =
  req_version_info :: string
  req_node :: "node option"
  req_resource_names :: "string list"
  req_type_url :: string
  req_response_nonce :: string
  req_error_detail :: "rpc_status option"

record discovery_response =
  resp_version_info :: string
  resp_resources :: "any_msg list"
  resp_type_url :: string
  resp_nonce :: string

record resource_msg =
  res_name :: string
  res_aliases :: "string list"
  res_version :: string
  res_resource :: "any_msg option"

definition empty_node :: node where
  "empty_node = \<lparr>node_id = [], node_cluster = [], node_metadata = None,
     node_locality = None, node_user_agent_name = []\<rparr>"

definition empty_any :: any_msg where
  "empty_any = \<lparr>any_type_url = [], any_value = []\<rparr>"

definition empty_request :: discovery_request where
  "empty_request = \<lparr>req_version_info = [], req_node = None, req_resource_names = [],
     req_type_url = [], req_response_nonce = [], req_error_detail = None\<rparr>"

definition empty_response :: discovery_response where
  "empty_response = \<lparr>resp_version_info = [], resp_resources = [], resp_type_url = [],
     resp_nonce = []\<rparr>"

definition empty_resource :: resource_msg where
  "empty_resource = \<lparr>res_name = [], res_aliases = [], res_version = [], res_resource = None\<rparr>"

lemmas empty_msg_defs = empty_node_def empty_any_def empty_request_def empty_response_def
  empty_resource_def

section \<open>Merging nodes\<close>

text \<open>
  \<^verbatim>\<open>MergeFrom\<close> of proto3 messages: a scalar of the source overwrites the target when it is
  not the default, a submessage is merged recursively, a map takes the source's entries.
\<close>

definition merge_string :: "string \<Rightarrow> string \<Rightarrow> string" where
  "merge_string dst src = (if src = [] then dst else src)"

definition merge_struct :: "pb_struct option \<Rightarrow> pb_struct option \<Rightarrow> pb_struct option" where
  "merge_struct dst src = (case src of None \<Rightarrow> dst
     | Some m \<Rightarrow> Some ((case dst of None \<Rightarrow> Map.empty | Some d \<Rightarrow> d) ++ m))"

definition merge_locality :: "locality option \<Rightarrow> locality option \<Rightarrow> locality option" where
  "merge_locality dst src = (case src of None \<Rightarrow> dst
     | Some l \<Rightarrow> Some (case dst of None \<Rightarrow> l | Some d \<Rightarrow>
         \<lparr>loc_region = merge_string (loc_region d) (loc_region l),
          loc_zone = merge_string (loc_zone d) (loc_zone l),
          loc_sub_zone = merge_string (loc_sub_zone d) (loc_sub_zone l)\<rparr>))"

definition node_merge :: "node \<Rightarrow> node \<Rightarrow> node" where
  "node_merge dst src =
    \<lparr>node_id = merge_string (node_id dst) (node_id src),
     node_cluster = merge_string (node_cluster dst) (node_cluster src),
     node_metadata = merge_struct (node_metadata dst) (node_metadata src),
     node_locality = merge_locality (node_locality dst) (node_locality src),
     node_user_agent_name = merge_string (node_user_agent_name dst) (node_user_agent_name src)\<rparr>"

text \<open>\<^verbatim>\<open>request.mutable_node()\<close>: the node of the request, created empty when unset.\<close>

definition mutable_node :: "discovery_request \<Rightarrow> node" where
  "mutable_node r = (case req_node r of None \<Rightarrow> empty_node | Some n \<Rightarrow> n)"

definition merge_node_into :: "node \<Rightarrow> discovery_request \<Rightarrow> discovery_request" where
  "merge_node_into n r = r\<lparr>req_node := Some (node_merge (mutable_node r) n)\<rparr>"

lemma node_merge_empty [simp]: "node_merge empty_node n = n"
  by (cases n)
    (auto simp: node_merge_def empty_node_def merge_string_def merge_struct_def
      merge_locality_def split: option.split)

lemma merge_node_into_fresh [simp]:
  "req_node r = None \<Longrightarrow> merge_node_into n r = r\<lparr>req_node := Some n\<rparr>"
  by (simp add: merge_node_into_def mutable_node_def)

section \<open>Builders\<close>

text \<open>
  \<^verbatim>\<open>struct_data.mutable_fields()->insert({k, v})\<close> leaves an existing key alone, so the first
  pair with a key wins.
\<close>

definition map_insert :: "'k \<Rightarrow> 'v \<Rightarrow> ('k \<rightharpoonup> 'v) \<Rightarrow> ('k \<rightharpoonup> 'v)" where
  "map_insert k v m = (case m k of None \<Rightarrow> m(k \<mapsto> v) | Some _ \<Rightarrow> m)"

fun build_fields :: "(string \<times> string) list \<Rightarrow> pb_struct \<Rightarrow> pb_struct" where
  "build_fields [] m = m"
| "build_fields (item # items) m =
     build_fields items (map_insert (fst item) (StringValue (snd item)) m)"

definition build_struct :: "(string \<times> string) list \<Rightarrow> pb_struct" where
  "build_struct keyValue = build_fields keyValue Map.empty"

definition ads_node :: node where
  "ads_node = empty_node\<lparr>node_id := node_id empty_node @ ''test-id'',
     node_cluster := node_cluster empty_node @ ''test-cluster'',
     node_metadata := Some (build_struct [(''test'', ''data1'')])\<rparr>"

lemma build_fields_lookup:
  "build_fields kvs m k =
    (case m k of Some v \<Rightarrow> Some v | None \<Rightarrow> map_option StringValue (map_of kvs k))"
  by (induction kvs arbitrary: m) (auto simp: map_insert_def split: option.split)

lemma build_struct_lookup: "build_struct kvs k = map_option StringValue (map_of kvs k)"
  by (simp add: build_struct_def build_fields_lookup)

lemma dom_build_struct: "dom (build_struct kvs) = fst ` set kvs"
  by (auto simp: dom_def build_struct_lookup map_of_eq_None_iff)

end
