(* ===== verification/Rpc_Stream.thy ===== *)
theory Rpc_Stream
  imports Discovery_Messages
begin

text \<open>
  The synchronous bidirectional gRPC stream of the ADS service. gRPC is a third-party
  library, so its stream is a parameter: a record of the operations the client calls, over
  a type \<open>'w\<close> of transport states the client never looks into. Every call the client makes
  on the stream is recorded in a log of events, which is what the theorems on the wire
  behaviour are about.
\<close>

section \<open>The stream as a parameter\<close>

text \<open>
  \<open>rpc_open\<close> is \<^verbatim>\<open>stub_->StreamAggregatedResources(&context_)\<close> (whether the returned pointer is
  non-null); \<open>rpc_write\<close> returns the flag of \<^verbatim>\<open>Write\<close>, which the client ignores; \<open>rpc_read\<close>
  returns the message, or \<open>None\<close> where \<^verbatim>\<open>Read\<close> returns false; \<open>rpc_finish\<close> returns \<^verbatim>\<open>status.ok()\<close>.
\<close>

record 'w sync_rpc =
  rpc_open :: "'w \<Rightarrow> bool \<times> 'w"
  rpc_write :: "discovery_request \<Rightarrow> 'w \<Rightarrow> bool \<times> 'w"
  rpc_read :: "'w \<Rightarrow> discovery_response option \<times> 'w"
  rpc_writes_done :: "'w \<Rightarrow> bool \<times> 'w"
  rpc_finish :: "'w \<Rightarrow> bool \<times> 'w"

datatype io_event =
    Opened bool
  | Wrote discovery_request
  | ReadMsg discovery_response
  | ReadEnd
  | DoneWriting
  | Finished bool

fun is_write :: "io_event \<Rightarrow> bool" where
  "is_write (Wrote r) = True"
| "is_write _ = False"

definition writes_of :: "io_event list \<Rightarrow> discovery_request list" where
  "writes_of es = concat (map (\<lambda>e. case e of Wrote r \<Rightarrow> [r] | _ \<Rightarrow> []) es)"

definition reads_of :: "io_event list \<Rightarrow> discovery_response list" where
  "reads_of es = concat (map (\<lambda>e. case e of ReadMsg m \<Rightarrow> [m] | _ \<Rightarrow> []) es)"

lemma writes_of_simps [simp]:
  "writes_of [] = []"
  "writes_of (e # es) = (case e of Wrote r \<Rightarrow> [r] | _ \<Rightarrow> []) @ writes_of es"
  "writes_of (es @ fs) = writes_of es @ writes_of fs"
  by (simp_all add: writes_of_def)

lemma reads_of_simps [simp]:
  "reads_of [] = []"
  "reads_of (e # es) = (case e of ReadMsg m \<Rightarrow> [m] | _ \<Rightarrow> []) @ reads_of es"
  "reads_of (es @ fs) = reads_of es @ reads_of fs"
  by (simp_all add: reads_of_def)

lemma reads_of_map_ReadMsg [simp]: "reads_of (map ReadMsg ms) = ms"
  by (induction ms) simp_all

lemma writes_of_map_ReadMsg [simp]: "writes_of (map ReadMsg ms) = []"
  by (induction ms) simp_all

section \<open>What a transport may promise\<close>

text \<open>
  A stream that delivers finitely many messages: a measure that every delivered message
  lowers and that no other call of the client raises. gRPC documents that \<^verbatim>\<open>Read\<close> returns
  false once the stream has ended; a server that ends its stream gives such a measure.
\<close>

definition finite_stream :: "'w sync_rpc \<Rightarrow> ('w \<Rightarrow> nat) \<Rightarrow> bool" where
  "finite_stream g m \<longleftrightarrow>
    (\<forall>w. case rpc_read g w of (Some r, w') \<Rightarrow> m w' < m w | (None, w') \<Rightarrow> m w' \<le> m w) \<and>
    (\<forall>q w. m (snd (rpc_write g q w)) \<le> m w)"

lemma finite_stream_read:
  "finite_stream g m \<Longrightarrow> rpc_read g w = (Some r, w') \<Longrightarrow> m w' < m w"
  unfolding finite_stream_def by (drule conjunct1, drule spec [of _ w]) simp

lemma finite_stream_end:
  "finite_stream g m \<Longrightarrow> rpc_read g w = (None, w') \<Longrightarrow> m w' \<le> m w"
  unfolding finite_stream_def by (drule conjunct1, drule spec [of _ w]) simp

lemma finite_stream_write: "finite_stream g m \<Longrightarrow> m (snd (rpc_write g q w)) \<le> m w"
  by (simp add: finite_stream_def)

text \<open>
  \<open>delivers g w ms w'\<close>: when nothing is written in between, the reads from \<open>w\<close> return the
  messages \<open>ms\<close> in order, then the end of the stream, and leave the transport in \<open>w'\<close>.
\<close>

fun delivers :: "'w sync_rpc \<Rightarrow> 'w \<Rightarrow> discovery_response list \<Rightarrow> 'w \<Rightarrow> bool" where
  "delivers g w [] w' \<longleftrightarrow> rpc_read g w = (None, w')"
| "delivers g w (m # ms) w' \<longleftrightarrow>
     (case rpc_read g w of (Some r, w1) \<Rightarrow> r = m \<and> delivers g w1 ms w' | (None, w1) \<Rightarrow> False)"

section \<open>A scripted transport\<close>

text \<open>
  The transport the witnesses run on: its state is the list of messages the server still
  sends; writes are absorbed.
\<close>

definition script_rpc :: "discovery_response list sync_rpc" where
  "script_rpc = \<lparr>rpc_open = (\<lambda>w. (True, w)), rpc_write = (\<lambda>q w. (True, w)),
     rpc_read = (\<lambda>w. case w of [] \<Rightarrow> (None, []) | r # rs \<Rightarrow> (Some r, rs)),
     rpc_writes_done = (\<lambda>w. (True, w)), rpc_finish = (\<lambda>w. (True, w))\<rparr>"

lemma script_rpc_simps [rpc_simps]:
  "rpc_open script_rpc w = (True, w)"
  "rpc_write script_rpc q w = (True, w)"
  "rpc_read script_rpc [] = (None, [])"
  "rpc_read script_rpc (r # rs) = (Some r, rs)"
  "rpc_writes_done script_rpc w = (True, w)"
  "rpc_finish script_rpc w = (True, w)"
  by (simp_all add: script_rpc_def)

lemma script_rpc_finite: "finite_stream script_rpc length"
  by (auto simp: finite_stream_def script_rpc_def split: list.split)

lemma script_rpc_delivers: "delivers script_rpc ms ms []"
  by (induction ms) (simp_all add: rpc_simps)

end
