(* ===== verification/Ads_Client.thy ===== *)
theory Ads_Client
  imports Rpc_Stream
begin

text \<open>
  The ADS multiplexer of \<^verbatim>\<open>ads_protocol_client/AdsClient.{h,cpp}\<close> and the watches of
  \<^verbatim>\<open>Watcher.h\<close>: its state, and every operation that changes it, in the order of the sources.
  Watchers are heap objects: the state holds the store \<open>watchers\<close> from addresses to live
  objects, and the watch list of a type holds addresses, as the C++ list of \<^verbatim>\<open>Watcher*\<close> does.
  The transport state and the log of stream events are part of the client record.

  The request path is re-entrant: \<^verbatim>\<open>queueDiscoveryRequest\<close>, \<^verbatim>\<open>drainRequests\<close>,
  \<^verbatim>\<open>sendDiscoveryRequest\<close> with its read loop and \<^verbatim>\<open>onDiscoveryResponse\<close> call each other, and
  run as long as the server sends. They are mutually recursive on a fuel argument.
\<close>

section \<open>State\<close>

type_synonym address = nat

record api_state =
  watches :: "address list"
  request :: discovery_request
  pauses :: "32 word"
  pending :: bool
  subscribed :: bool
  must_send_node :: bool
  control_plane_identifier :: string
  previously_fetched_data :: bool

record watcher =
  watch_resources :: std_set
  watch_type_url :: string
  watch_decoder :: nat

record 'w ads_client =
  stub :: bool
  first :: bool
  isOk :: bool
  version_info :: string
  nonce :: string
  discoveryRequest :: discovery_request
  stream :: bool
  subscriptions :: "string list"
  api_states :: "string \<rightharpoonup> api_state"
  first_stream_request :: bool
  request_queue :: "string list option"
  started :: bool
  shutdown_flag :: bool
  watchers :: "address \<rightharpoonup> watcher"
  net :: 'w
  io_log :: "io_event list"

definition cluster_type_url :: string where
  "cluster_type_url = ''type.googleapis.com/envoy.config.cluster.v3.Cluster''"

definition new_api_state :: api_state where
  "new_api_state = \<lparr>watches = [], request = empty_request, pauses = 0, pending = False,
     subscribed = False, must_send_node = False, control_plane_identifier = [],
     previously_fetched_data = False\<rparr>"

definition paused :: "api_state \<Rightarrow> bool" where
  "paused a \<longleftrightarrow> pauses a > 0"

text \<open>\<^verbatim>\<open>AdsClient()\<close>, and the constructor that takes a channel; \<open>w\<close> is the transport's state.\<close>

definition AdsClient :: "'w \<Rightarrow> 'w ads_client" where
  "AdsClient w = \<lparr>stub = False, first = True, isOk = False, version_info = [], nonce = [],
     discoveryRequest = empty_request, stream = False, subscriptions = [cluster_type_url],
     api_states = Map.empty, first_stream_request = True, request_queue = None,
     started = False, shutdown_flag = False, watchers = Map.empty, net = w, io_log = []\<rparr>"

definition setChannel :: "'w ads_client \<Rightarrow> 'w ads_client" where
  "setChannel s = s\<lparr>stub := True\<rparr>"

definition AdsClient_channel :: "'w \<Rightarrow> 'w ads_client" where
  "AdsClient_channel w = (AdsClient w)\<lparr>stub := True\<rparr>"

section \<open>Per-type state\<close>

text \<open>\<^verbatim>\<open>apiStateFor\<close>: look the type up, emplacing a fresh state when there is none.\<close>

definition apiStateFor :: "string \<Rightarrow> 'w ads_client \<Rightarrow> api_state \<times> 'w ads_client" where
  "apiStateFor t s = (case api_states s t of
      None \<Rightarrow> (new_api_state, s\<lparr>api_states := (api_states s)(t \<mapsto> new_api_state)\<rparr>)
    | Some a \<Rightarrow> (a, s))"

text \<open>A write through the reference that \<^verbatim>\<open>apiStateFor(type_url)\<close> returns.\<close>

definition modifyApi ::
    "string \<Rightarrow> (api_state \<Rightarrow> api_state) \<Rightarrow> 'w ads_client \<Rightarrow> 'w ads_client" where
  "modifyApi t f s = (let (a, s1) = apiStateFor t s in
     s1\<lparr>api_states := (api_states s1)(t \<mapsto> f a)\<rparr>)"

definition modifyRequest ::
    "(discovery_request \<Rightarrow> discovery_request) \<Rightarrow> api_state \<Rightarrow> api_state" where
  "modifyRequest f a = a\<lparr>request := f (request a)\<rparr>"

definition clearNonce :: "'w ads_client \<Rightarrow> 'w ads_client" where
  "clearNonce s = s\<lparr>api_states := (\<lambda>t. map_option
     (modifyRequest (\<lambda>r. r\<lparr>req_response_nonce := []\<rparr>)) (api_states s t))\<rparr>"

section \<open>Sending a request\<close>

text \<open>
  The resource names of a request: the resources of every watch in list order, each name
  the first time it is met (the local \<^verbatim>\<open>std::set\<close> of \<^verbatim>\<open>sendDiscoveryRequest\<close>).
\<close>

fun addNames :: "string list \<Rightarrow> std_set \<times> string list \<Rightarrow> std_set \<times> string list" where
  "addNames [] acc = acc"
| "addNames (r # rs) (seen, names) =
     (if r \<in> set seen then addNames rs (seen, names)
      else addNames rs (std_set_insert r seen, names @ [r]))"

fun collectNames ::
    "(address \<rightharpoonup> watcher) \<Rightarrow> address list \<Rightarrow> std_set \<times> string list \<Rightarrow> fault + string list" where
  "collectNames h [] acc = Inr (snd acc)"
| "collectNames h (p # ps) acc =
     (case h p of None \<Rightarrow> Inl DanglingWatcher
      | Some wt \<Rightarrow> collectNames h ps (addNames (watch_resources wt) acc))"

text \<open>
  \<^verbatim>\<open>sendDiscoveryRequest\<close> up to the \<^verbatim>\<open>Write\<close>: rebuild the resource names, then attach or clear
  the node.
\<close>

definition prepareRequest :: "string \<Rightarrow> 'w ads_client \<Rightarrow> 'w ads_client call" where
  "prepareRequest t s =
    (let (a, s1) = apiStateFor t s in
     case collectNames (watchers s1) (watches a) ([], []) of
       Inl e \<Rightarrow> halt e s1
     | Inr names \<Rightarrow>
       let s2 = modifyApi t (modifyRequest (\<lambda>r. r\<lparr>req_resource_names := names\<rparr>)) s1 in
       Inr (if must_send_node a \<or> first_stream_request s2
            then modifyApi t (\<lambda>b. b\<lparr>must_send_node := False\<rparr>)
              (if \<not> subscribed a
               then (modifyApi t (\<lambda>b. (modifyRequest
                      (\<lambda>r. r\<lparr>req_type_url := t, req_node := Some ads_node\<rparr>) b)\<lparr>subscribed := True\<rparr>) s2)
                      \<lparr>subscriptions := subscriptions s2 @ [t]\<rparr>
               else s2)
            else modifyApi t (modifyRequest (\<lambda>r. r\<lparr>req_node := None\<rparr>)) s2))"

text \<open>\<^verbatim>\<open>stream_->Write(request)\<close> and the bookkeeping after it.\<close>

definition transmit :: "'w sync_rpc \<Rightarrow> string \<Rightarrow> 'w ads_client \<Rightarrow> 'w ads_client call" where
  "transmit g t s =
    (if \<not> stream s then halt NullStream s
     else let (a, s1) = apiStateFor t s in
       Inr (modifyApi t (modifyRequest (\<lambda>r. r\<lparr>req_error_detail := None\<rparr>))
         (s1\<lparr>net := snd (rpc_write g (request a) (net s1)),
             io_log := io_log s1 @ [Wrote (request a)],
             first_stream_request := False\<rparr>)))"

text \<open>\<^verbatim>\<open>request_queue_->emplace\<close> and \<^verbatim>\<open>request_queue_->pop()\<close>.\<close>

definition pushQueue :: "string \<Rightarrow> 'w ads_client \<Rightarrow> 'w ads_client call" where
  "pushQueue t s = (case request_queue s of
      None \<Rightarrow> halt NullQueue s
    | Some q \<Rightarrow> Inr (s\<lparr>request_queue := Some (q @ [t])\<rparr>))"

definition popQueue :: "'w ads_client \<Rightarrow> 'w ads_client call" where
  "popQueue s = (case request_queue s of
      None \<Rightarrow> halt NullQueue s
    | Some [] \<Rightarrow> halt PopEmptyQueue s
    | Some (t # q) \<Rightarrow> Inr (s\<lparr>request_queue := Some q\<rparr>))"

definition logRead :: "discovery_response option \<Rightarrow> 'w \<Rightarrow> 'w ads_client \<Rightarrow> 'w ads_client" where
  "logRead r w s = s\<lparr>net := w,
     io_log := io_log s @ [case r of None \<Rightarrow> ReadEnd | Some m \<Rightarrow> ReadMsg m]\<rparr>"

section \<open>The request path\<close>

fun queueDiscoveryRequest ::
      "'w sync_rpc \<Rightarrow> nat \<Rightarrow> string \<Rightarrow> 'w ads_client \<Rightarrow> 'w ads_client call"
  and drainRequests :: "'w sync_rpc \<Rightarrow> nat \<Rightarrow> 'w ads_client \<Rightarrow> 'w ads_client call"
  and sendDiscoveryRequest ::
      "'w sync_rpc \<Rightarrow> nat \<Rightarrow> string \<Rightarrow> 'w ads_client \<Rightarrow> 'w ads_client call"
  and readResponses :: "'w sync_rpc \<Rightarrow> nat \<Rightarrow> 'w ads_client \<Rightarrow> 'w ads_client call"
  and onDiscoveryResponse ::
      "'w sync_rpc \<Rightarrow> nat \<Rightarrow> discovery_response \<Rightarrow> 'w ads_client \<Rightarrow> 'w ads_client call"
where
  "queueDiscoveryRequest g 0 t s = halt OutOfFuel s"
| "queueDiscoveryRequest g (Suc n) t s =
    (if \<not> stream s then Inr s
     else let (a, s1) = apiStateFor t s in
       if paused a then Inr (modifyApi t (\<lambda>b. b\<lparr>pending := True\<rparr>) s1)
       else bind_res (pushQueue t s1) (drainRequests g n))"
| "drainRequests g 0 s = halt OutOfFuel s"
| "drainRequests g (Suc n) s =
    (case request_queue s of
       None \<Rightarrow> halt NullQueue s
     | Some [] \<Rightarrow> Inr s
     | Some (t # q) \<Rightarrow>
         bind_res (sendDiscoveryRequest g n t s) (\<lambda>s1. bind_res (popQueue s1) (drainRequests g n)))"
| "sendDiscoveryRequest g 0 t s = halt OutOfFuel s"
| "sendDiscoveryRequest g (Suc n) t s =
    (if shutdown_flag s then Inr s
     else bind_res (prepareRequest t s) (\<lambda>s1. bind_res (transmit g t s1) (readResponses g n)))"
| "readResponses g 0 s = halt OutOfFuel s"
| "readResponses g (Suc n) s =
    (case rpc_read g (net s) of
       (None, w) \<Rightarrow> Inr (logRead None w s)
     | (Some m, w) \<Rightarrow>
         bind_res (onDiscoveryResponse g n m (logRead (Some m) w s)) (readResponses g n))"
| "onDiscoveryResponse g 0 m s = halt OutOfFuel s"
| "onDiscoveryResponse g (Suc n) m s =
    (let t = resp_type_url m in
     if api_states s t = None then Inr s
     else let (a, s1) = apiStateFor t s in
       if watches a = [] then
         (let s2 = modifyApi t (modifyRequest (\<lambda>r. r\<lparr>req_response_nonce := resp_nonce m\<rparr>)) s1 in
          if resp_resources m = []
          then Inr (modifyApi t (modifyRequest (\<lambda>r. r\<lparr>req_version_info := resp_version_info m\<rparr>)) s2)
          else queueDiscoveryRequest g n t s2)
       else
         queueDiscoveryRequest g n t
           (modifyApi t (modifyRequest (\<lambda>r. r\<lparr>req_response_nonce := resp_nonce m\<rparr>))
             (modifyApi t (\<lambda>b. b\<lparr>previously_fetched_data := True\<rparr>) s1)))"

text \<open>
  \<^verbatim>\<open>onStreamEstablished\<close>: the range-for over \<open>subscriptions\<close> visits elements appended while
  it runs, as iterators of \<^verbatim>\<open>std::list\<close> stay valid and the end moves with the list.
\<close>

fun requeueFrom :: "'w sync_rpc \<Rightarrow> nat \<Rightarrow> nat \<Rightarrow> 'w ads_client \<Rightarrow> 'w ads_client call" where
  "requeueFrom g 0 i s = halt OutOfFuel s"
| "requeueFrom g (Suc n) i s =
    (if i < length (subscriptions s)
     then bind_res (queueDiscoveryRequest g n (subscriptions s ! i) s) (requeueFrom g n (Suc i))
     else Inr s)"

definition onStreamEstablished ::
    "'w sync_rpc \<Rightarrow> nat \<Rightarrow> 'w ads_client \<Rightarrow> 'w ads_client call" where
  "onStreamEstablished g n s =
    (if \<not> stub s then halt NullStub s
     else let (ok, w) = rpc_open g (net s);
              s1 = s\<lparr>stream := ok, net := w, io_log := io_log s @ [Opened ok]\<rparr>
       in if ok
          then requeueFrom g n 0 (clearNonce (s1\<lparr>first_stream_request := True\<rparr>)\<lparr>request_queue := Some []\<rparr>)
          else Inr s1)"

definition endStream :: "'w sync_rpc \<Rightarrow> 'w ads_client \<Rightarrow> 'w ads_client call" where
  "endStream g s =
    (if \<not> stream s then halt NullStream s
     else let w1 = snd (rpc_writes_done g (net s)); (ok, w2) = rpc_finish g w1
       in Inr (s\<lparr>net := w2, io_log := io_log s @ [DoneWriting, Finished ok]\<rparr>))"

definition shutdown :: "'w sync_rpc \<Rightarrow> 'w ads_client \<Rightarrow> 'w ads_client call" where
  "shutdown g s = bind_res (endStream g s) (\<lambda>s1. Inr (s1\<lparr>shutdown_flag := True\<rparr>))"

section \<open>Watches\<close>

text \<open>
  \<^verbatim>\<open>updateResources\<close> of the watcher at address \<open>p\<close>: the transform into \<open>watch_resources\<close> is the
  identity on names, and the watch moves to the front of its type's list.
\<close>

definition updateResources :: "address \<Rightarrow> std_set \<Rightarrow> 'w ads_client \<Rightarrow> 'w ads_client call" where
  "updateResources p rs s = (case watchers s p of
      None \<Rightarrow> halt DanglingWatcher s
    | Some wt \<Rightarrow> Inr (modifyApi (watch_type_url wt) (\<lambda>a. a\<lparr>watches := p # watches a\<rparr>)
        (s\<lparr>watchers := (watchers s)(p \<mapsto> wt\<lparr>watch_resources := std_set_of rs\<rparr>)\<rparr>)))"

text \<open>The constructor of \<^verbatim>\<open>Watcher\<close> on a fresh address.\<close>

definition Watcher ::
    "address \<Rightarrow> std_set \<Rightarrow> nat \<Rightarrow> string \<Rightarrow> 'w ads_client \<Rightarrow> 'w ads_client call" where
  "Watcher p rs dec t s =
     updateResources p rs ((snd (apiStateFor t s))\<lparr>watchers := (watchers s)
       (p \<mapsto> \<lparr>watch_resources = [], watch_type_url = t, watch_decoder = dec\<rparr>)\<rparr>)"

text \<open>\<^verbatim>\<open>watches_.erase(iter_)\<close>: the watcher's own node of the list.\<close>

definition eraseWatch :: "address \<Rightarrow> watcher \<Rightarrow> 'w ads_client \<Rightarrow> 'w ads_client" where
  "eraseWatch p wt s = modifyApi (watch_type_url wt) (\<lambda>a. a\<lparr>watches := remove1 p (watches a)\<rparr>) s"

text \<open>\<^verbatim>\<open>removeResourcesFromCache\<close>: everything in its body is commented out.\<close>

definition removeResourcesFromCache :: "std_set \<Rightarrow> 'w ads_client \<Rightarrow> 'w ads_client" where
  "removeResourcesFromCache resources_to_remove s = s"

definition Watcher_update ::
    "'w sync_rpc \<Rightarrow> nat \<Rightarrow> address \<Rightarrow> std_set \<Rightarrow> 'w ads_client \<Rightarrow> 'w ads_client call" where
  "Watcher_update g n p rs s = (case watchers s p of
      None \<Rightarrow> halt DanglingWatcher s
    | Some wt \<Rightarrow>
        bind_res (if watch_resources wt \<noteq> [] then queueDiscoveryRequest g n (watch_type_url wt) (eraseWatch p wt s)
                  else Inr (eraseWatch p wt s))
          (\<lambda>s1. bind_res (updateResources p rs s1) (queueDiscoveryRequest g n (watch_type_url wt))))"

definition Watcher_destroy ::
    "'w sync_rpc \<Rightarrow> nat \<Rightarrow> address \<Rightarrow> 'w ads_client \<Rightarrow> 'w ads_client call" where
  "Watcher_destroy g n p s = (case watchers s p of
      None \<Rightarrow> halt DanglingWatcher s
    | Some wt \<Rightarrow>
        bind_res (if watch_resources wt \<noteq> [] then queueDiscoveryRequest g n (watch_type_url wt) (eraseWatch p wt s)
                  else Inr (eraseWatch p wt s))
          (\<lambda>s1. Inr (s1\<lparr>watchers := (watchers s1)(p := None)\<rparr>)))"

definition subscribeOnce :: "string \<Rightarrow> 'w ads_client \<Rightarrow> 'w ads_client" where
  "subscribeOnce t s = (let (a, s1) = apiStateFor t s in
     if \<not> subscribed a
     then (modifyApi t (\<lambda>b. (modifyRequest (\<lambda>r. r\<lparr>req_type_url := t\<rparr>) b)\<lparr>subscribed := True\<rparr>) s1)
            \<lparr>subscriptions := subscriptions s1 @ [t]\<rparr>
     else s1)"

definition addWatch :: "'w sync_rpc \<Rightarrow> nat \<Rightarrow> address \<Rightarrow> string \<Rightarrow> std_set \<Rightarrow> nat \<Rightarrow>
    'w ads_client \<Rightarrow> 'w ads_client call" where
  "addWatch g n p t rs dec s =
     bind_res (Watcher p rs dec t s) (\<lambda>s1. queueDiscoveryRequest g n t (subscribeOnce t s1))"

text \<open>\<^verbatim>\<open>expiryCallback\<close>: collects the expired names into a local set and has no other effect.\<close>

definition expiryCallback :: "string \<Rightarrow> string list \<Rightarrow> 'w ads_client \<Rightarrow> 'w ads_client" where
  "expiryCallback t expired s = (let all_expired = std_set_of expired in s)"

text \<open>\<^verbatim>\<open>processDiscoveryResources\<close> has an empty body.\<close>

definition processDiscoveryResources ::
    "'r list \<Rightarrow> string \<Rightarrow> string \<Rightarrow> bool \<Rightarrow> 'w ads_client \<Rightarrow> 'w ads_client" where
  "processDiscoveryResources resources t version call_delegate s = s"

section \<open>The chat session\<close>

text \<open>
  The older single-type session of \<^verbatim>\<open>AdsClient.h\<close>: one request template, every response is
  answered at once. The resources of a response are parsed for printing only.
\<close>

definition continueChat :: "'w sync_rpc \<Rightarrow> 'w ads_client \<Rightarrow> 'w ads_client call" where
  "continueChat g s =
    (let req = (discoveryRequest s)\<lparr>req_version_info := version_info s,
                 req_response_nonce := nonce s\<rparr>;
         s1 = s\<lparr>discoveryRequest := req\<rparr>
     in if \<not> stream s then halt NullStream s1
        else Inr (s1\<lparr>net := snd (rpc_write g req (net s)), io_log := io_log s @ [Wrote req],
                     isOk := True\<rparr>))"

fun chatLoop :: "'w sync_rpc \<Rightarrow> nat \<Rightarrow> 'w ads_client \<Rightarrow> 'w ads_client call" where
  "chatLoop g 0 s = halt OutOfFuel s"
| "chatLoop g (Suc n) s =
    (case rpc_read g (net s) of
       (None, w) \<Rightarrow> Inr (logRead None w s)
     | (Some m, w) \<Rightarrow>
         bind_res (continueChat g ((logRead (Some m) w s)
             \<lparr>version_info := resp_version_info m, nonce := resp_nonce m\<rparr>))
           (chatLoop g n))"

definition AggregatedDiscoveryService ::
    "'w sync_rpc \<Rightarrow> nat \<Rightarrow> 'w ads_client \<Rightarrow> 'w ads_client call" where
  "AggregatedDiscoveryService g n s =
    (let r = discoveryRequest s; nd = mutable_node r;
         req = r\<lparr>req_version_info := [],
                 req_node := Some (nd\<lparr>node_cluster := node_cluster nd @ ''test-cluster'',
                                       node_id := node_id nd @ ''test-id''\<rparr>),
                 req_type_url := cluster_type_url\<rparr>;
         s1 = s\<lparr>discoveryRequest := req\<rparr>
     in if \<not> stream s then halt NullStream s1
        else chatLoop g n (s1\<lparr>net := snd (rpc_write g req (net s)),
                               io_log := io_log s @ [Wrote req]\<rparr>))"

section \<open>The program\<close>

text \<open>
  \<^verbatim>\<open>Config\<close>: its fields, of which the constructor sets the address only (\<^verbatim>\<open>on_demand_\<close> stays
  indeterminate, hence optional), and \<^verbatim>\<open>build\<close>, which passes none of them on. \<^verbatim>\<open>Handler\<close> has no
  fields and an empty \<^verbatim>\<open>handle\<close>; \<^verbatim>\<open>RejectedConfig\<close> is a pair of strings.
\<close>

datatype Handler = Handler

definition handle :: "Handler \<Rightarrow> Handler" where
  "handle h = h"

record RejectedConfig =
  rejected_name :: string
  rejected_error :: string

record config =
  config_address :: string
  proxy_metadata :: "string \<rightharpoonup> string"
  config_handler :: "string \<rightharpoonup> Handler"
  initial_requests :: "discovery_request list"
  config_on_demand :: "bool option"

definition Config :: "string \<Rightarrow> config" where
  "Config address = \<lparr>config_address = address, proxy_metadata = Map.empty, config_handler = Map.empty,
     initial_requests = [], config_on_demand = None\<rparr>"

definition build :: "config \<Rightarrow> 'w \<Rightarrow> 'w ads_client" where
  "build c w = AdsClient w"

text \<open>\<^verbatim>\<open>main\<close> of the multiplexing client: configure, build, set the channel, run the session, shut down.\<close>

definition main_ads :: "'w sync_rpc \<Rightarrow> nat \<Rightarrow> 'w \<Rightarrow> 'w ads_client call" where
  "main_ads g n w = (let config = Config ''192.168.56.101:18000''; client = setChannel (build config w) in
     bind_res (onStreamEstablished g n client) (shutdown g))"

end
