(* ===== verification/Request_Path.thy ===== *)
theory Request_Path
  imports Ads_Client
begin

text \<open>
  The library of the request path. First the elementary steps of \<^verbatim>\<open>Ads_Client\<close> as rewrite
  rules, then the interface between the re-entrant calls and the properties proved of them:
  a locale whose parameter is a relation between client states and whose laws say that
  every elementary step keeps it; the mutual induction over the five calls is done once
  there, for runs that return, fault or exhaust their fuel alike.
\<close>

section \<open>Elementary steps\<close>

definition api_of :: "'w ads_client \<Rightarrow> string \<Rightarrow> api_state" where
  "api_of s t = (case api_states s t of None \<Rightarrow> new_api_state | Some a \<Rightarrow> a)"

definition touch :: "string \<Rightarrow> 'w ads_client \<Rightarrow> 'w ads_client" where
  "touch t s = s\<lparr>api_states := (api_states s)(t \<mapsto> api_of s t)\<rparr>"

lemma apiStateFor_eq: "apiStateFor t s = (api_of s t, touch t s)"
  by (cases "api_states s t") (simp_all add: apiStateFor_def api_of_def touch_def fun_upd_idem)

lemma modifyApi_eq: "modifyApi t f s = s\<lparr>api_states := (api_states s)(t \<mapsto> f (api_of s t))\<rparr>"
  by (simp add: modifyApi_def apiStateFor_eq touch_def)

lemma api_of_update [simp]:
  "api_of (s\<lparr>net := w\<rparr>) t = api_of s t" "api_of (s\<lparr>io_log := es\<rparr>) t = api_of s t"
  "api_of (s\<lparr>first_stream_request := b\<rparr>) t = api_of s t"
  "api_of (s\<lparr>request_queue := q\<rparr>) t = api_of s t"
  "api_of (s\<lparr>subscriptions := us\<rparr>) t = api_of s t" "api_of (s\<lparr>watchers := h\<rparr>) t = api_of s t"
  "api_of (s\<lparr>shutdown_flag := b\<rparr>) t = api_of s t" "api_of (s\<lparr>stream := b\<rparr>) t = api_of s t"
  "api_of (s\<lparr>stub := b\<rparr>) t = api_of s t"
  by (simp_all add: api_of_def)

lemma api_of_touch [simp]: "api_of (touch t s) u = api_of s u"
  by (simp add: api_of_def touch_def)

lemma api_of_modifyApi [simp]:
  "api_of (modifyApi t f s) u = (if u = t then f (api_of s t) else api_of s u)"
  by (simp add: modifyApi_eq api_of_def)

lemma api_states_touch [simp]: "api_states (touch t s) = (api_states s)(t \<mapsto> api_of s t)"
  by (simp add: touch_def)

lemma api_states_modifyApi [simp]:
  "api_states (modifyApi t f s) = (api_states s)(t \<mapsto> f (api_of s t))"
  by (simp add: modifyApi_eq)

lemma modifyApi_touch [simp]: "modifyApi t f (touch t s) = modifyApi t f s"
  by (simp add: modifyApi_eq touch_def api_of_def)

lemma modifyApi_modifyApi [simp]: "modifyApi t f (modifyApi t h s) = modifyApi t (f \<circ> h) s"
  by (simp add: modifyApi_eq api_of_def)

lemma touch_frame [simp]:
  "stub (touch t s) = stub s" "stream (touch t s) = stream s"
  "subscriptions (touch t s) = subscriptions s"
  "first_stream_request (touch t s) = first_stream_request s"
  "request_queue (touch t s) = request_queue s" "shutdown_flag (touch t s) = shutdown_flag s"
  "watchers (touch t s) = watchers s" "net (touch t s) = net s" "io_log (touch t s) = io_log s"
  by (simp_all add: touch_def)

lemma modifyApi_frame [simp]:
  "stub (modifyApi t f s) = stub s" "stream (modifyApi t f s) = stream s"
  "subscriptions (modifyApi t f s) = subscriptions s"
  "first_stream_request (modifyApi t f s) = first_stream_request s"
  "request_queue (modifyApi t f s) = request_queue s"
  "shutdown_flag (modifyApi t f s) = shutdown_flag s"
  "watchers (modifyApi t f s) = watchers s" "net (modifyApi t f s) = net s"
  "io_log (modifyApi t f s) = io_log s"
  by (simp_all add: modifyApi_eq)

lemma modifyRequest_simps [simp]:
  "watches (modifyRequest f a) = watches a" "request (modifyRequest f a) = f (request a)"
  "pauses (modifyRequest f a) = pauses a" "subscribed (modifyRequest f a) = subscribed a"
  "must_send_node (modifyRequest f a) = must_send_node a"
  "paused (modifyRequest f a) = paused a"
  by (simp_all add: modifyRequest_def paused_def)

lemma new_api_state_simps [simp]:
  "watches new_api_state = []" "request new_api_state = empty_request"
  "subscribed new_api_state = False" "must_send_node new_api_state = False"
  "pauses new_api_state = 0" "paused new_api_state = False"
  by (simp_all add: new_api_state_def paused_def)

lemma logRead_frame [simp]:
  "stub (logRead r w s) = stub s" "stream (logRead r w s) = stream s"
  "subscriptions (logRead r w s) = subscriptions s" "api_states (logRead r w s) = api_states s"
  "first_stream_request (logRead r w s) = first_stream_request s"
  "request_queue (logRead r w s) = request_queue s"
  "shutdown_flag (logRead r w s) = shutdown_flag s"
  "watchers (logRead r w s) = watchers s" "net (logRead r w s) = w"
  "io_log (logRead r w s) = io_log s @ [case r of None \<Rightarrow> ReadEnd | Some m \<Rightarrow> ReadMsg m]"
  "api_of (logRead r w s) t = api_of s t"
  by (simp_all add: logRead_def api_of_def)

text \<open>The recording part of \<^verbatim>\<open>onDiscoveryResponse\<close>, before a request is queued again.\<close>

definition recordResponse :: "discovery_response \<Rightarrow> 'w ads_client \<Rightarrow> 'w ads_client" where
  "recordResponse m s = (let t = resp_type_url m in
     if watches (api_of s t) = [] then
       (let s2 = modifyApi t (modifyRequest (\<lambda>r. r\<lparr>req_response_nonce := resp_nonce m\<rparr>)) s in
        if resp_resources m = []
        then modifyApi t (modifyRequest (\<lambda>r. r\<lparr>req_version_info := resp_version_info m\<rparr>)) s2
        else s2)
     else modifyApi t (modifyRequest (\<lambda>r. r\<lparr>req_response_nonce := resp_nonce m\<rparr>))
       (modifyApi t (\<lambda>b. b\<lparr>previously_fetched_data := True\<rparr>) s))"

definition wants_request :: "discovery_response \<Rightarrow> 'w ads_client \<Rightarrow> bool" where
  "wants_request m s \<longleftrightarrow> watches (api_of s (resp_type_url m)) \<noteq> [] \<or> resp_resources m \<noteq> []"

lemma onDiscoveryResponse_eq:
  "onDiscoveryResponse g (Suc n) m s =
    (if api_states s (resp_type_url m) = None then Inr s
     else if wants_request m s
     then queueDiscoveryRequest g n (resp_type_url m) (recordResponse m s)
     else Inr (recordResponse m s))"
  by (auto simp: recordResponse_def wants_request_def apiStateFor_eq Let_def)

lemma queueDiscoveryRequest_eq:
  "queueDiscoveryRequest g (Suc n) t s =
    (if \<not> stream s then Inr s
     else if paused (api_of s t) then Inr (modifyApi t (\<lambda>b. b\<lparr>pending := True\<rparr>) s)
     else bind_res (pushQueue t (touch t s)) (drainRequests g n))"
  by (simp add: apiStateFor_eq)

declare queueDiscoveryRequest.simps(2) [simp del] onDiscoveryResponse.simps(2) [simp del]

lemma recordResponse_frame [simp]:
  "stub (recordResponse m s) = stub s" "stream (recordResponse m s) = stream s"
  "subscriptions (recordResponse m s) = subscriptions s"
  "first_stream_request (recordResponse m s) = first_stream_request s"
  "request_queue (recordResponse m s) = request_queue s"
  "shutdown_flag (recordResponse m s) = shutdown_flag s"
  "watchers (recordResponse m s) = watchers s" "net (recordResponse m s) = net s"
  "io_log (recordResponse m s) = io_log s"
  by (simp_all add: recordResponse_def Let_def)

section \<open>Preparing and transmitting\<close>

text \<open>Each name where it first occurs: what the duplicate filter of the request computes.\<close>

definition dedup :: "'a list \<Rightarrow> 'a list" where
  "dedup xs = rev (remdups (rev xs))"

lemma set_dedup [simp]: "set (dedup xs) = set xs" and distinct_dedup [simp]: "distinct (dedup xs)"
  by (simp_all add: dedup_def)

lemma dedup_snoc: "dedup (xs @ [x]) = (if x \<in> set xs then dedup xs else dedup xs @ [x])"
  by (simp add: dedup_def)

lemma dedup_append: "dedup (xs @ dedup ys) = dedup (xs @ ys)"
proof -
  have "remdups (remdups as @ bs) = remdups (as @ bs)" for as bs :: "'a list"
    by (induction as) auto
  then show ?thesis by (simp add: dedup_def)
qed

lemma addNames_dedup:
  assumes "std_set_ok seen" and "set seen = set xs"
  shows "std_set_ok (fst (addNames rs (seen, dedup xs))) \<and>
    set (fst (addNames rs (seen, dedup xs))) = set (xs @ rs) \<and>
    snd (addNames rs (seen, dedup xs)) = dedup (xs @ rs)"
  using assms
proof (induction rs arbitrary: xs seen)
  case Nil
  then show ?case by simp
next
  case (Cons r rs)
  show ?case
  proof (cases "r \<in> set xs")
    case True
    then have "dedup (xs @ [r]) = dedup xs" and "set (xs @ [r]) = set xs"
      by (auto simp: dedup_snoc)
    with Cons.IH [of seen "xs @ [r]"] Cons.prems True show ?thesis by simp
  next
    case False
    have "std_set_ok (std_set_insert r seen)" and "set (std_set_insert r seen) = set (xs @ [r])"
      using Cons.prems sset.invar_insert sset.elems_insert by auto
    with Cons.IH [of "std_set_insert r seen" "xs @ [r]"] Cons.prems False show ?thesis
      by (simp add: dedup_snoc)
  qed
qed

definition watched_names :: "(address \<rightharpoonup> watcher) \<Rightarrow> address list \<Rightarrow> string list" where
  "watched_names h ps = concat (map (\<lambda>p. watch_resources (the (h p))) ps)"

lemma collectNames_dedup:
  assumes "std_set_ok seen" and "set seen = set xs"
  shows "collectNames h ps (seen, dedup xs) =
    (if \<forall>p\<in>set ps. h p \<noteq> None then Inr (dedup (xs @ watched_names h ps)) else Inl DanglingWatcher)"
  using assms
proof (induction ps arbitrary: xs seen)
  case Nil
  then show ?case by (simp add: watched_names_def)
next
  case (Cons p ps)
  show ?case
  proof (cases "h p")
    case (Some wt)
    note add = addNames_dedup [OF Cons.prems, of "watch_resources wt"]
    obtain seen' where "addNames (watch_resources wt) (seen, dedup xs) =
        (seen', dedup (xs @ watch_resources wt))"
      using add by (metis prod.collapse)
    with Cons.IH [of seen' "xs @ watch_resources wt"] add Some show ?thesis
      by (simp add: watched_names_def)
  qed simp
qed

text \<open>The names a request of type \<open>t\<close> carries: the resources of its watches, newest watch first.\<close>

definition names_for :: "'w ads_client \<Rightarrow> string \<Rightarrow> string list" where
  "names_for s t = dedup (watched_names (watchers s) (watches (api_of s t)))"

definition watches_live :: "'w ads_client \<Rightarrow> string \<Rightarrow> bool" where
  "watches_live s t \<longleftrightarrow> (\<forall>p\<in>set (watches (api_of s t)). watchers s p \<noteq> None)"

definition attach :: "string \<Rightarrow> string list \<Rightarrow> bool \<Rightarrow> api_state \<Rightarrow> api_state" where
  "attach t names fresh a =
    (let b = modifyRequest (\<lambda>r. r\<lparr>req_resource_names := names\<rparr>) a in
     if must_send_node a \<or> fresh
     then (if subscribed a then b
           else (modifyRequest (\<lambda>r. r\<lparr>req_type_url := t, req_node := Some ads_node\<rparr>) b)
             \<lparr>subscribed := True\<rparr>)\<lparr>must_send_node := False\<rparr>
     else modifyRequest (\<lambda>r. r\<lparr>req_node := None\<rparr>) b)"

lemma attach_simps [simp]:
  "watches (attach t names fresh a) = watches a" "pauses (attach t names fresh a) = pauses a"
  "paused (attach t names fresh a) = paused a"
  "must_send_node (attach t names fresh a) = False"
  "req_resource_names (request (attach t names fresh a)) = names"
  "req_version_info (request (attach t names fresh a)) = req_version_info (request a)"
  "req_response_nonce (request (attach t names fresh a)) = req_response_nonce (request a)"
  "req_error_detail (request (attach t names fresh a)) = req_error_detail (request a)"
  by (auto simp: attach_def Let_def paused_def modifyRequest_def)

lemma prepareRequest_eq:
  "prepareRequest t s =
    (if watches_live s t
     then Inr ((modifyApi t (attach t (names_for s t) (first_stream_request s)) s)
       \<lparr>subscriptions := subscriptions s @
          (if (must_send_node (api_of s t) \<or> first_stream_request s) \<and> \<not> subscribed (api_of s t)
           then [t] else [])\<rparr>)
     else halt DanglingWatcher (touch t s))"
proof -
  have "collectNames (watchers s) (watches (api_of s t)) ([], []) =
      (if watches_live s t then Inr (names_for s t) else Inl DanglingWatcher)"
    using collectNames_dedup [of "[]" "[]" "watchers s" "watches (api_of s t)"]
    by (simp add: std_set_ok_def dedup_def watches_live_def names_for_def)
  then show ?thesis
    by (auto simp: prepareRequest_def apiStateFor_eq Let_def attach_def modifyApi_eq api_of_def touch_def
        modifyRequest_def o_def)
qed

lemma transmit_eq:
  "transmit g t s =
    (if stream s
     then Inr ((modifyApi t (modifyRequest (\<lambda>r. r\<lparr>req_error_detail := None\<rparr>)) s)
       \<lparr>net := snd (rpc_write g (request (api_of s t)) (net s)),
        io_log := io_log s @ [Wrote (request (api_of s t))], first_stream_request := False\<rparr>)
     else halt NullStream s)"
  by (simp add: transmit_def apiStateFor_eq modifyApi_eq api_of_def touch_def)

section \<open>Relations kept by the request path\<close>

locale request_path_rel =
  fixes g :: "'w sync_rpc" and R :: "'w ads_client \<Rightarrow> 'w ads_client \<Rightarrow> bool"
  assumes R_refl: "R s s"
    and R_trans: "transp R"
    and R_touch: "R s (touch t s)"
    and R_pending: "R s (modifyApi t (\<lambda>b. b\<lparr>pending := True\<rparr>) s)"
    and R_queue: "request_queue s = Some q \<Longrightarrow> R s (s\<lparr>request_queue := Some q'\<rparr>)"
    and R_prepare: "\<not> shutdown_flag s \<Longrightarrow> R s (final (prepareRequest t s))"
    and R_transmit: "\<not> shutdown_flag s \<Longrightarrow> prepareRequest t s = Inr s1 \<Longrightarrow>
          R s1 (final (transmit g t s1))"
    and R_read: "rpc_read g (net s) = (r, w) \<Longrightarrow> R s (logRead r w s)"
    and R_record: "api_states s (resp_type_url m) \<noteq> None \<Longrightarrow> R s (recordResponse m s)"
begin

lemma R_push: "R s (final (pushQueue t s))"
  by (auto simp: pushQueue_def R_refl R_queue split: option.split)

lemma R_pop: "R s (final (popQueue s))"
  by (auto simp: popQueue_def R_refl R_queue split: option.split list.split)

lemma R_bind: "R s (final r) \<Longrightarrow> (\<And>s1. r = Inr s1 \<Longrightarrow> R s1 (final (f s1))) \<Longrightarrow>
    R s (final (bind_res r f))"
  by (rule final_bind [OF R_trans])

lemmas R_compose = transpD [OF R_trans]

lemma request_path_step:
  assumes Q: "\<And>t s. R s (final (queueDiscoveryRequest g n t s))"
    and D: "\<And>s. R s (final (drainRequests g n s))"
    and S: "\<And>t s. R s (final (sendDiscoveryRequest g n t s))"
    and L: "\<And>s. R s (final (readResponses g n s))"
    and O: "\<And>m s. R s (final (onDiscoveryResponse g n m s))"
  shows "R s (final (queueDiscoveryRequest g (Suc n) t s))"
    and "R s (final (drainRequests g (Suc n) s))"
    and "R s (final (sendDiscoveryRequest g (Suc n) t s))"
    and "R s (final (readResponses g (Suc n) s))"
    and "R s (final (onDiscoveryResponse g (Suc n) m s))"
proof -
  have "R s (final (bind_res (pushQueue t (touch t s)) (drainRequests g n)))"
    by (rule R_compose [OF R_touch R_bind]) (rule R_push, rule D)
  then show "R s (final (queueDiscoveryRequest g (Suc n) t s))"
    by (simp add: queueDiscoveryRequest_eq R_refl R_pending)
  show "R s (final (drainRequests g (Suc n) s))"
    by (auto simp: R_refl split: option.split list.split intro!: R_bind S R_pop D)
  show "R s (final (sendDiscoveryRequest g (Suc n) t s))"
    by (auto simp: R_refl intro!: R_bind R_prepare R_transmit L)
  show "R s (final (readResponses g (Suc n) s))"
  proof (cases "rpc_read g (net s)")
    case (Pair r w)
    then have "R s (logRead r w s)" by (rule R_read)
    with Pair show ?thesis
      by (cases r) (auto intro!: R_compose [OF _ R_bind] O L)
  qed
  show "R s (final (onDiscoveryResponse g (Suc n) m s))"
    using R_compose [OF R_record Q] by (auto simp: onDiscoveryResponse_eq R_refl intro: R_record)
qed

lemma request_path:
  "R s (final (queueDiscoveryRequest g n t s))"
  "R s (final (drainRequests g n s))"
  "R s (final (sendDiscoveryRequest g n t s))"
  "R s (final (readResponses g n s))"
  "R s (final (onDiscoveryResponse g n m s))"
proof (induction n arbitrary: s t m)
  case 0
  { case 1 show ?case by (simp add: R_refl) }
  { case 2 show ?case by (simp add: R_refl) }
  { case 3 show ?case by (simp add: R_refl) }
  { case 4 show ?case by (simp add: R_refl) }
  { case 5 show ?case by (simp add: R_refl) }
next
  case (Suc n)
  { case 1 show ?case by (rule request_path_step) (rule Suc.IH)+ }
  { case 2 show ?case by (rule request_path_step) (rule Suc.IH)+ }
  { case 3 show ?case by (rule request_path_step) (rule Suc.IH)+ }
  { case 4 show ?case by (rule request_path_step) (rule Suc.IH)+ }
  { case 5 show ?case by (rule request_path_step) (rule Suc.IH)+ }
qed

lemma requeue_path: "R s (final (requeueFrom g n i s))"
  by (induction n arbitrary: i s) (auto simp: R_refl intro!: R_bind request_path)

end

end
