(* ===== verification/Client_Invariant.thy ===== *)
theory Client_Invariant
  imports Request_Path
begin

text \<open>
  The well-formedness invariant of the multiplexer and what the request path leaves alone.
  \<open>wf_except P s\<close> relates the per-type watch lists, the store of watchers, the request
  templates and the queue; \<open>P\<close> holds the watchers that are out of their list for the
  moment (inside \<^verbatim>\<open>Watcher::update\<close> and \<^verbatim>\<open>~Watcher\<close>). Reachable states are those a program can
  produce by any sequence of the public operations.
\<close>

section \<open>Well-formed clients\<close>

definition wf_api :: "'w ads_client \<Rightarrow> string \<Rightarrow> api_state \<Rightarrow> bool" where
  "wf_api s t a \<longleftrightarrow>
    distinct (watches a) \<and>
    (\<forall>p\<in>set (watches a). \<exists>wt. watchers s p = Some wt \<and> watch_type_url wt = t) \<and>
    (req_type_url (request a) = [] \<or> req_type_url (request a) = t) \<and>
    (subscribed a \<longrightarrow> req_type_url (request a) = t \<and> t \<in> set (subscriptions s)) \<and>
    pauses a = 0 \<and> \<not> must_send_node a \<and> req_error_detail (request a) = None"

definition wf_except :: "address set \<Rightarrow> 'w ads_client \<Rightarrow> bool" where
  "wf_except P s \<longleftrightarrow>
    (\<forall>t a. api_states s t = Some a \<longrightarrow> wf_api s t a) \<and>
    (\<forall>p wt. watchers s p = Some wt \<longrightarrow> std_set_ok (watch_resources wt) \<and>
       (p \<in> set (watches (api_of s (watch_type_url wt))) \<longleftrightarrow> p \<notin> P)) \<and>
    (stream s \<longrightarrow> request_queue s \<noteq> None)"

abbreviation wf_client :: "'w ads_client \<Rightarrow> bool" where
  "wf_client s \<equiv> wf_except {} s"

lemma wf_api_new [simp]: "wf_api s t new_api_state"
  by (simp add: wf_api_def empty_request_def)

lemma wf_api_of: "wf_except P s \<Longrightarrow> wf_api s t (api_of s t)"
  by (auto simp: wf_except_def api_of_def split: option.split)

lemma wf_store:
  assumes "wf_except P s" and "watchers s p = Some wt"
  shows "std_set_ok (watch_resources wt)"
    and "p \<in> set (watches (api_of s (watch_type_url wt))) \<longleftrightarrow> p \<notin> P"
  using assms by (auto simp: wf_except_def)

lemma wf_exceptI:
  assumes "\<And>t. wf_api s t (api_of s t)"
    and "\<And>p wt. watchers s p = Some wt \<Longrightarrow> std_set_ok (watch_resources wt) \<and>
      (p \<in> set (watches (api_of s (watch_type_url wt))) \<longleftrightarrow> p \<notin> P)"
    and "stream s \<Longrightarrow> request_queue s \<noteq> None"
  shows "wf_except P s"
proof -
  have "wf_api s t a" if "api_states s t = Some a" for t a
    using assms(1) [of t] that by (simp add: api_of_def)
  with assms(2,3) show ?thesis by (simp add: wf_except_def)
qed

lemma wf_api_mono:
  "wf_api s t a \<Longrightarrow> watchers s' = watchers s \<Longrightarrow> set (subscriptions s) \<subseteq> set (subscriptions s') \<Longrightarrow>
   wf_api s' t a"
  by (auto simp: wf_api_def)

text \<open>
  The general step of the invariant: one type's state changes to a well-formed one with the
  same watch list, the store stays, subscriptions may grow.
\<close>

lemma wf_except_step:
  assumes wf: "wf_except P s"
    and api: "api_states s' = (api_states s)(t \<mapsto> a)" "wf_api s' t a"
    and keep: "watches a = watches (api_of s t)" "watchers s' = watchers s"
      "set (subscriptions s) \<subseteq> set (subscriptions s')"
    and queue: "stream s' \<Longrightarrow> request_queue s' \<noteq> None"
  shows "wf_except P s'"
proof -
  have "wf_api s' u b" if "api_states s' u = Some b" for u b
    using that api wf wf_api_mono [OF _ keep(2,3)]
    by (cases "u = t") (auto simp: wf_except_def)
  moreover have "watches (api_of s' u) = watches (api_of s u)" for u
    using api keep by (auto simp: api_of_def)
  ultimately show ?thesis
    using wf queue keep(2) by (auto simp: wf_except_def)
qed

lemma wf_except_cong:
  assumes "wf_except P s" and "api_states s' = api_states s" and "watchers s' = watchers s"
    and "subscriptions s' = subscriptions s" and "stream s' \<Longrightarrow> request_queue s' \<noteq> None"
  shows "wf_except P s'"
  using assms by (auto simp: wf_except_def wf_api_def api_of_def)

lemma wf_queue: "wf_except P s \<Longrightarrow> stream s \<Longrightarrow> request_queue s \<noteq> None"
  by (simp add: wf_except_def)

lemma wf_watches_live: "wf_except P s \<Longrightarrow> watches_live s t"
  using wf_api_of [of P s t] by (auto simp: watches_live_def wf_api_def)

lemma wf_not_paused: "wf_except P s \<Longrightarrow> \<not> paused (api_of s t)"
  using wf_api_of [of P s t] by (simp add: wf_api_def paused_def)

section \<open>What the request path keeps\<close>

definition same_watches :: "'w ads_client \<Rightarrow> 'w ads_client \<Rightarrow> bool" where
  "same_watches s s' \<longleftrightarrow> watchers s' = watchers s \<and>
    (\<forall>t. watches (api_of s' t) = watches (api_of s t)) \<and>
    (\<forall>t. subscribed (api_of s t) \<longrightarrow> subscribed (api_of s' t)) \<and>
    stub s' = stub s \<and> stream s' = stream s \<and> shutdown_flag s' = shutdown_flag s"

text \<open>
  A request on the wire: it names its type or, for a type that is not subscribed, no type;
  and it asks for exactly the resources of the type's watches, in their order.
\<close>

definition well_formed_request :: "'w ads_client \<Rightarrow> discovery_request \<Rightarrow> bool" where
  "well_formed_request s r \<longleftrightarrow>
    (\<exists>t. (req_type_url r = t \<or> req_type_url r = [] \<and> \<not> subscribed (api_of s t)) \<and>
       req_resource_names r = names_for s t) \<and>
    req_error_detail r = None"

definition path_rel :: "address set \<Rightarrow> 'w ads_client \<Rightarrow> 'w ads_client \<Rightarrow> bool" where
  "path_rel P s s' \<longleftrightarrow> wf_except P s \<longrightarrow>
    wf_except P s' \<and> same_watches s s' \<and>
    (\<exists>es. io_log s' = io_log s @ es \<and> (\<forall>r\<in>set (writes_of es). well_formed_request s r))"

lemma names_for_same: "same_watches s s' \<Longrightarrow> names_for s' t = names_for s t"
  by (simp add: same_watches_def names_for_def)

lemma well_formed_request_same:
  "same_watches s s' \<Longrightarrow> well_formed_request s' r \<Longrightarrow> well_formed_request s r"
  by (auto simp: well_formed_request_def names_for_same same_watches_def)

lemma same_watches_trans: "same_watches s s' \<Longrightarrow> same_watches s' s'' \<Longrightarrow> same_watches s s''"
  by (simp add: same_watches_def)

lemma path_rel_quiet:
  assumes "wf_except P s \<Longrightarrow> wf_except P s' \<and> same_watches s s'" and "writes_of es = []"
    and "io_log s' = io_log s @ es"
  shows "path_rel P s s'"
  using assms by (force simp: path_rel_def)

lemma path_rel_trans: "transp (path_rel P)"
proof (rule transpI)
  fix s s' s'' :: "'w ads_client"
  assume 1: "path_rel P s s'" and 2: "path_rel P s' s''"
  show "path_rel P s s''"
    unfolding path_rel_def
  proof (intro impI)
    assume wf: "wf_except P s"
    from 1 wf obtain es where s': "wf_except P s'" "same_watches s s'"
      "io_log s' = io_log s @ es" "\<forall>r\<in>set (writes_of es). well_formed_request s r"
      by (auto simp: path_rel_def)
    from 2 s'(1) obtain fs where s'': "wf_except P s''" "same_watches s' s''"
      "io_log s'' = io_log s' @ fs" "\<forall>r\<in>set (writes_of fs). well_formed_request s' r"
      by (auto simp: path_rel_def)
    have "io_log s'' = io_log s @ (es @ fs)"
      and "\<forall>r\<in>set (writes_of (es @ fs)). well_formed_request s r"
      using s' s'' well_formed_request_same [OF s'(2)] by auto
    then show "wf_except P s'' \<and> same_watches s s'' \<and>
        (\<exists>es. io_log s'' = io_log s @ es \<and> (\<forall>r\<in>set (writes_of es). well_formed_request s r))"
      using s'' s' same_watches_trans by blast
  qed
qed

lemma wf_modifyApi:
  assumes "wf_except P s" and "wf_api s t (f (api_of s t))"
    and "watches (f (api_of s t)) = watches (api_of s t)"
  shows "wf_except P (modifyApi t f s)"
  by (rule wf_except_step [OF assms(1), where t = t and a = "f (api_of s t)"])
    (use assms in \<open>auto simp: wf_api_def dest: wf_queue\<close>)

lemma same_watches_modifyApi:
  "watches (f (api_of s t)) = watches (api_of s t) \<Longrightarrow>
   (subscribed (api_of s t) \<Longrightarrow> subscribed (f (api_of s t))) \<Longrightarrow> same_watches s (modifyApi t f s)"
  by (simp add: same_watches_def)

lemma wf_touch: "wf_except P s \<Longrightarrow> wf_except P (touch t s)"
  by (rule wf_except_step [where t = t and a = "api_of s t"])
    (auto simp: dest: wf_queue wf_api_of intro: wf_api_mono)

lemma same_watches_touch: "same_watches s (touch t s)"
  by (simp add: same_watches_def)

lemma wf_attach:
  "wf_api s t a \<Longrightarrow> subscribed (attach t names fresh a) \<longrightarrow> t \<in> set (subscriptions s') \<Longrightarrow>
   watchers s' = watchers s \<Longrightarrow> wf_api s' t (attach t names fresh a)"
  by (auto simp: wf_api_def attach_def Let_def modifyRequest_def)

lemma subscribed_attach [simp]:
  "subscribed (attach t names fresh a) \<longleftrightarrow> subscribed a \<or> must_send_node a \<or> fresh"
  by (auto simp: attach_def Let_def)

lemma subscribed_record [simp]: "subscribed (api_of (recordResponse m s) t) = subscribed (api_of s t)"
  by (simp add: recordResponse_def Let_def)

lemma wf_recordResponse: "wf_except P s \<Longrightarrow> wf_except P (recordResponse m s)"
  using wf_api_of [of P s "resp_type_url m"]
  by (auto simp: recordResponse_def Let_def wf_api_def intro!: wf_modifyApi)

lemma same_watches_recordResponse: "same_watches s (recordResponse m s)"
  by (simp add: recordResponse_def Let_def same_watches_def)

lemma wf_logRead: "wf_except P s \<Longrightarrow> wf_except P (logRead r w s)"
  using wf_except_cong [of P s "logRead r w s"] wf_queue [of P s] by simp

lemma prepareRequest_keeps:
  assumes "prepareRequest t s = Inr s1"
  shows "api_states s1 = (api_states s)(t \<mapsto>
      attach t (names_for s t) (first_stream_request s) (api_of s t))"
    and "same_watches s s1" and "io_log s1 = io_log s" and "net s1 = net s"
    and "request_queue s1 = request_queue s"
    and "set (subscriptions s) \<subseteq> set (subscriptions s1)"
    and "subscribed (api_of s1 t) \<Longrightarrow> \<not> subscribed (api_of s t) \<Longrightarrow> t \<in> set (subscriptions s1)"
    and "req_resource_names (request (api_of s1 t)) = names_for s1 t"
proof -
  show api: "api_states s1 = (api_states s)(t \<mapsto>
      attach t (names_for s t) (first_stream_request s) (api_of s t))"
    using assms by (auto simp: prepareRequest_eq split: if_splits)
  then show sw: "same_watches s s1"
    using assms by (auto simp: prepareRequest_eq same_watches_def api_of_def split: if_splits)
  show "io_log s1 = io_log s" "net s1 = net s" "request_queue s1 = request_queue s"
    "set (subscriptions s) \<subseteq> set (subscriptions s1)"
    using assms by (auto simp: prepareRequest_eq split: if_splits)
  show "subscribed (api_of s1 t) \<Longrightarrow> \<not> subscribed (api_of s t) \<Longrightarrow> t \<in> set (subscriptions s1)"
    using assms api
    by (auto simp: prepareRequest_eq api_of_def attach_def Let_def split: if_splits)
  show "req_resource_names (request (api_of s1 t)) = names_for s1 t"
    by (simp add: names_for_same [OF sw] api_of_def api)
qed

lemma prepareRequest_wf:
  assumes wf: "wf_except P s" and p: "prepareRequest t s = Inr s1"
  shows "wf_except P s1"
proof -
  note k = prepareRequest_keeps [OF p]
  have api: "api_of s1 t = attach t (names_for s t) (first_stream_request s) (api_of s t)"
    by (simp add: api_of_def k(1))
  have sw: "watchers s1 = watchers s" "stream s1 = stream s"
    using k(2) by (simp_all add: same_watches_def)
  have "wf_api s1 t (attach t (names_for s t) (first_stream_request s) (api_of s t))"
    using wf_api_of [OF wf, of t] k(6,7) api
    by (intro wf_attach [OF wf_api_of [OF wf] _ sw(1)]) (auto simp: wf_api_def)
  then show ?thesis
    by (rule wf_except_step [OF wf k(1)]) (use k sw wf_queue [OF wf] in auto)
qed

lemma transmit_wf:
  assumes wf: "wf_except P s" and names: "req_resource_names (request (api_of s t)) = names_for s t"
    and st: "stream s"
  shows "\<exists>s'. transmit g t s = Inr s' \<and> wf_except P s' \<and> same_watches s s' \<and>
    io_log s' = io_log s @ [Wrote (request (api_of s t))] \<and>
    well_formed_request s (request (api_of s t))"
proof -
  let ?a = "modifyRequest (\<lambda>r. r\<lparr>req_error_detail := None\<rparr>) (api_of s t)"
  obtain s' where s': "transmit g t s = Inr s'" "api_states s' = (api_states s)(t \<mapsto> ?a)"
    "watchers s' = watchers s" "subscriptions s' = subscriptions s" "stream s' = stream s"
    "request_queue s' = request_queue s" "stub s' = stub s" "shutdown_flag s' = shutdown_flag s"
    "io_log s' = io_log s @ [Wrote (request (api_of s t))]"
    using st by (simp add: transmit_eq)
  have "wf_api s' t ?a"
    using wf_api_of [OF wf, of t] s' by (auto simp: wf_api_def)
  then have "wf_except P s'"
    by (rule wf_except_step [OF wf s'(2)]) (use s' wf_queue [OF wf] in auto)
  moreover have "same_watches s s'"
    using s' by (auto simp: same_watches_def api_of_def)
  moreover have "well_formed_request s (request (api_of s t))"
    using wf_api_of [OF wf, of t] names by (auto simp: well_formed_request_def wf_api_def)
  ultimately show ?thesis using s' by blast
qed

lemma path_rel_prepare: "path_rel P s (final (prepareRequest t s))"
proof (cases "prepareRequest t s")
  case (Inl p)
  then show ?thesis
    by (intro path_rel_quiet [where es = "[]"])
      (auto simp: prepareRequest_eq wf_watches_live split: if_splits)
next
  case (Inr s1)
  then show ?thesis
    by (intro path_rel_quiet [where es = "[]"])
      (auto simp: prepareRequest_keeps intro: prepareRequest_wf)
qed

lemma path_rel_transmit:
  assumes "prepareRequest t s = Inr s1"
  shows "path_rel P s1 (final (transmit g t s1))"
proof (cases "stream s1")
  case True
  with transmit_wf [OF _ prepareRequest_keeps(8) [OF assms] True, of P g] show ?thesis
    by (fastforce simp: path_rel_def)
next
  case False
  then show ?thesis
    by (intro path_rel_quiet [where es = "[]"]) (auto simp: transmit_eq same_watches_def)
qed

interpretation path: request_path_rel g "path_rel P" for g P
proof unfold_locales
  show "path_rel P s s" for s :: "'a ads_client"
    by (rule path_rel_quiet [where es = "[]"]) (auto simp: same_watches_def)
  show "transp (path_rel P :: 'a ads_client \<Rightarrow> _)" by (rule path_rel_trans)
  show "path_rel P s (touch t s)" for s :: "'a ads_client" and t
    by (rule path_rel_quiet [where es = "[]"]) (auto simp: wf_touch same_watches_touch)
  show "path_rel P s (modifyApi t (\<lambda>b. b\<lparr>pending := True\<rparr>) s)" for s :: "'a ads_client" and t
    using wf_api_of [of P s t]
    by (intro path_rel_quiet [where es = "[]"])
      (auto simp: wf_api_def intro!: wf_modifyApi same_watches_modifyApi)
  show "path_rel P s (s\<lparr>request_queue := Some q'\<rparr>)" for s :: "'a ads_client" and q'
    by (rule path_rel_quiet [where es = "[]"])
      (auto simp: same_watches_def api_of_def intro: wf_except_cong)
  show "path_rel P s (final (prepareRequest t s))" for s :: "'a ads_client" and t
    by (rule path_rel_prepare)
  show "path_rel P s1 (final (transmit g t s1))" if "prepareRequest t s = Inr s1"
    for s s1 :: "'a ads_client" and t
    using that by (rule path_rel_transmit)
  show "path_rel P s (logRead r w s)" for s :: "'a ads_client" and r w
    by (rule path_rel_quiet [where es = "[case r of None \<Rightarrow> ReadEnd | Some m \<Rightarrow> ReadMsg m]"])
      (simp_all add: same_watches_def wf_logRead split: option.split)
  show "path_rel P s (recordResponse m s)" for s :: "'a ads_client" and m
    by (rule path_rel_quiet [where es = "[]"])
      (auto simp: wf_recordResponse same_watches_recordResponse)
qed

lemma path_final:
  assumes "wf_except P s" and "path_rel P s s'"
  obtains es where "wf_except P s'" and "same_watches s s'" and "io_log s' = io_log s @ es"
    and "\<forall>r\<in>set (writes_of es). well_formed_request s r"
  using assms by (auto simp: path_rel_def)

lemma path_wf:
  assumes "wf_except P s" and "path_rel P s s'"
  shows "wf_except P s'" and "same_watches s s'"
  using assms by (simp_all add: path_rel_def)

section \<open>Watch operations\<close>

lemma wf_list_member:
  "wf_except P s \<Longrightarrow> p \<in> set (watches (api_of s t)) \<Longrightarrow>
   \<exists>wt. watchers s p = Some wt \<and> watch_type_url wt = t"
  using wf_api_of [of P s t] by (auto simp: wf_api_def)

lemma wf_updateResources:
  assumes wf: "wf_except P s" and p: "watchers s p = Some wt" "p \<in> P"
  shows "\<exists>s'. updateResources p rs s = Inr s' \<and> wf_except (P - {p}) s'"
proof -
  let ?t = "watch_type_url wt"
  let ?a = "(api_of s ?t)\<lparr>watches := p # watches (api_of s ?t)\<rparr>"
  obtain s' where s': "updateResources p rs s = Inr s'"
    "api_states s' = (api_states s)(?t \<mapsto> ?a)"
    "watchers s' = (watchers s)(p \<mapsto> wt\<lparr>watch_resources := std_set_of rs\<rparr>)"
    "subscriptions s' = subscriptions s" "stream s' = stream s" "request_queue s' = request_queue s"
    using p by (simp add: updateResources_def modifyApi_eq api_of_def)
  have api: "api_of s' u = (if u = ?t then ?a else api_of s u)" for u
    by (simp add: api_of_def s'(2))
  have notin: "p \<notin> set (watches (api_of s u))" for u
    using wf_list_member [OF wf, of p u] p wf by (auto simp: wf_except_def)
  have "wf_except (P - {p}) s'"
  proof (rule wf_exceptI)
    show "wf_api s' u (api_of s' u)" for u
      using wf_api_of [OF wf, of u] notin [of u] p(1)
      by (auto simp: wf_api_def api s' split: if_splits)
    show "std_set_ok (watch_resources v) \<and>
        (x \<in> set (watches (api_of s' (watch_type_url v))) \<longleftrightarrow> x \<notin> P - {p})"
      if "watchers s' x = Some v" for x v
      using that wf_store [OF wf, of x v] by (cases "x = p") (auto simp: s' api)
  qed (use wf_queue [OF wf] s' in auto)
  with s' show ?thesis by blast
qed

lemma wf_Watcher:
  assumes wf: "wf_client s" and fresh: "watchers s p = None"
  shows "\<exists>s'. Watcher p rs dec t s = Inr s' \<and> wf_client s'"
proof -
  let ?v = "\<lparr>watch_resources = [], watch_type_url = t, watch_decoder = dec\<rparr>"
  let ?s = "(touch t s)\<lparr>watchers := (watchers s)(p \<mapsto> ?v)\<rparr>"
  have api: "api_of ?s u = api_of s u" for u
    by (simp add: api_of_def touch_def)
  have notin: "p \<notin> set (watches (api_of s u))" for u
    using wf_list_member [OF wf, of p u] fresh by auto
  have "wf_except {p} ?s"
  proof (rule wf_exceptI)
    show "wf_api ?s u (api_of ?s u)" for u
      using wf_api_of [OF wf, of u] notin [of u] unfolding api by (auto simp: wf_api_def)
    show "std_set_ok (watch_resources v) \<and>
        (x \<in> set (watches (api_of ?s (watch_type_url v))) \<longleftrightarrow> x \<notin> {p})"
      if "watchers ?s x = Some v" for x v
      using that wf_store [OF wf, of x v] notin unfolding api
      by (cases "x = p") (auto simp: std_set_ok_def)
  qed (use wf_queue [OF wf] in simp)
  from wf_updateResources [OF this, of p ?v rs] show ?thesis
    by (simp add: Watcher_def apiStateFor_eq)
qed

lemma wf_eraseWatch:
  assumes wf: "wf_client s" and p: "watchers s p = Some wt"
  shows "wf_except {p} (eraseWatch p wt s)"
proof -
  let ?t = "watch_type_url wt"
  let ?s = "eraseWatch p wt s"
  have keep: "watchers ?s = watchers s" "subscriptions ?s = subscriptions s"
    "stream ?s = stream s" "request_queue ?s = request_queue s"
    by (simp_all add: eraseWatch_def)
  have api: "api_of ?s u = (if u = ?t then (api_of s ?t)\<lparr>watches := remove1 p (watches (api_of s ?t))\<rparr>
      else api_of s u)" for u
    by (simp add: eraseWatch_def)
  show ?thesis
  proof (rule wf_exceptI)
    show "wf_api ?s u (api_of ?s u)" for u
      using wf_api_of [OF wf, of u] by (auto simp: wf_api_def api keep dest: notin_set_remove1)
    show "std_set_ok (watch_resources v) \<and>
        (x \<in> set (watches (api_of ?s (watch_type_url v))) \<longleftrightarrow> x \<notin> {p})"
      if "watchers ?s x = Some v" for x v
      using that wf_store [OF wf, of x v] p wf_api_of [OF wf, of ?t]
      by (auto simp: api keep wf_api_def)
  qed (use wf_queue [OF wf] keep in simp)
qed

lemma wf_forget:
  assumes wf: "wf_except {p} s"
  shows "wf_client (s\<lparr>watchers := (watchers s)(p := None)\<rparr>)"
proof -
  let ?s = "s\<lparr>watchers := (watchers s)(p := None)\<rparr>"
  have notin: "p \<notin> set (watches (api_of s u))" for u
    using wf_list_member [OF wf, of p u] wf by (auto simp: wf_except_def)
  have api: "api_of ?s u = api_of s u" for u by (simp add: api_of_def)
  show ?thesis
  proof (rule wf_exceptI)
    show "wf_api ?s u (api_of ?s u)" for u
      using wf_api_of [OF wf, of u] notin [of u] unfolding api by (auto simp: wf_api_def)
    show "std_set_ok (watch_resources v) \<and>
        (x \<in> set (watches (api_of ?s (watch_type_url v))) \<longleftrightarrow> x \<notin> {})"
      if "watchers ?s x = Some v" for x v
      using that wf_store [OF wf, of x v] unfolding api by (auto split: if_splits)
  qed (use wf_queue [OF wf] in simp)
qed

lemma wf_subscribeOnce:
  assumes wf: "wf_except P s"
  shows "wf_except P (subscribeOnce t s)" and "same_watches s (subscribeOnce t s)"
proof -
  show "wf_except P (subscribeOnce t s)"
  proof (cases "subscribed (api_of s t)")
    case True
    with wf show ?thesis by (simp add: subscribeOnce_def apiStateFor_eq wf_touch)
  next
    case False
    let ?a = "(modifyRequest (\<lambda>r. r\<lparr>req_type_url := t\<rparr>) (api_of s t))\<lparr>subscribed := True\<rparr>"
    have "wf_api (subscribeOnce t s) t ?a"
      using wf_api_of [OF wf, of t] False
      by (auto simp: wf_api_def subscribeOnce_def apiStateFor_eq)
    with False show ?thesis
      by (intro wf_except_step [OF wf, where t = t and a = ?a])
        (auto simp: subscribeOnce_def apiStateFor_eq dest: wf_queue [OF wf])
  qed
  show "same_watches s (subscribeOnce t s)"
    by (auto simp: subscribeOnce_def apiStateFor_eq same_watches_def modifyApi_eq api_of_def touch_def)
qed

lemma api_of_clearNonce:
  "api_of (clearNonce s) t = modifyRequest (\<lambda>r. r\<lparr>req_response_nonce := []\<rparr>) (api_of s t)"
  by (simp add: clearNonce_def api_of_def modifyRequest_def new_api_state_def empty_request_def
      split: option.split)

lemma clearNonce_frame [simp]:
  "stub (clearNonce s) = stub s" "stream (clearNonce s) = stream s"
  "subscriptions (clearNonce s) = subscriptions s"
  "first_stream_request (clearNonce s) = first_stream_request s"
  "request_queue (clearNonce s) = request_queue s" "shutdown_flag (clearNonce s) = shutdown_flag s"
  "watchers (clearNonce s) = watchers s" "net (clearNonce s) = net s"
  "io_log (clearNonce s) = io_log s"
  by (simp_all add: clearNonce_def)

lemma wf_clearNonce: "wf_except P s \<Longrightarrow> wf_except P (clearNonce s)"
  using wf_api_of [of P s] wf_store [of P s] wf_queue [of P s]
  by (intro wf_exceptI) (auto simp: api_of_clearNonce wf_api_def)

end
