(* ===== verification/Request_Queue.thy ===== *)
theory Request_Queue
  imports Client_Invariant
begin

text \<open>
  The request queue under re-entrancy. \<^verbatim>\<open>drainRequests\<close> sends the front of the queue and pops
  it afterwards; a response read in between may queue and drain again, from inside. The
  theory settles when that goes well, what it does otherwise, how much fuel every call
  needs against a server that ends its stream, and which request is on the wire meanwhile.
\<close>

section \<open>Fuel\<close>

text \<open>
  \<open>reads_left\<close> is the transport's measure; the bounds grow by six per message still to come
  (one level of each of the calls, and the loop) and by one per queued request.
\<close>

definition queue_length :: "'w ads_client \<Rightarrow> nat" where
  "queue_length s = (case request_queue s of None \<Rightarrow> 0 | Some q \<Rightarrow> length q)"

lemma drainRequests_empties:
  "drainRequests g n s = Inr s' \<Longrightarrow> request_queue s' = Some []"
  by (induction n arbitrary: s) (auto simp: bind_res_Inr_iff split: option.splits list.splits)

text \<open>A call that returns leaves the queue as it was, or empty.\<close>

definition queue_kept :: "'w ads_client \<Rightarrow> 'w ads_client \<Rightarrow> bool" where
  "queue_kept s s' \<longleftrightarrow> request_queue s' = request_queue s \<or> request_queue s' = Some []"

lemma queue_kept_length: "queue_kept s s' \<Longrightarrow> queue_length s' \<le> queue_length s"
  by (auto simp: queue_kept_def queue_length_def)

lemma queue_kept_trans: "queue_kept s s' \<Longrightarrow> queue_kept s' s'' \<Longrightarrow> queue_kept s s''"
  by (auto simp: queue_kept_def)

lemma queueDiscoveryRequest_queue:
  "queueDiscoveryRequest g n t s = Inr s' \<Longrightarrow> queue_kept s s'"
  by (cases n)
    (auto simp: queueDiscoveryRequest_eq queue_kept_def bind_res_Inr_iff
      dest!: drainRequests_empties split: if_splits)

lemma onDiscoveryResponse_queue:
  "onDiscoveryResponse g n m s = Inr s' \<Longrightarrow> queue_kept s s'"
  by (cases n)
    (auto simp: onDiscoveryResponse_eq queue_kept_def split: if_splits
      dest!: queueDiscoveryRequest_queue)

lemma readResponses_queue: "readResponses g n s = Inr s' \<Longrightarrow> queue_kept s s'"
proof (induction n arbitrary: s)
  case (Suc n)
  obtain r w where rw: "rpc_read g (net s) = (r, w)" by force
  show ?case
  proof (cases r)
    case None
    with Suc.prems rw show ?thesis by (auto simp: queue_kept_def)
  next
    case (Some m)
    with Suc.prems rw obtain s1 where "onDiscoveryResponse g n m (logRead (Some m) w s) = Inr s1"
      and "readResponses g n s1 = Inr s'"
      by (auto simp: bind_res_Inr_iff)
    then show ?thesis
      using Suc.IH [of s1] onDiscoveryResponse_queue [of g n m "logRead (Some m) w s" s1]
      by (auto simp: queue_kept_def)
  qed
qed simp

lemma sendDiscoveryRequest_queue: "sendDiscoveryRequest g n t s = Inr s' \<Longrightarrow> queue_kept s s'"
  by (cases n)
    (auto simp: queue_kept_def prepareRequest_eq transmit_eq bind_res_Inr_iff
      split: if_splits dest!: readResponses_queue)

section \<open>Every call terminates when the stream ends\<close>

definition within :: "('w \<Rightarrow> nat) \<Rightarrow> 'w ads_client \<Rightarrow> 'w ads_client \<Rightarrow> bool" where
  "within m s s' \<longleftrightarrow> m (net s') \<le> m (net s)"

lemma request_path_within:
  assumes "finite_stream g m"
  shows "request_path_rel g (within m)"
proof
  fix s s1 :: "'a ads_client" and t r w
  show "within m s (final (prepareRequest t s))"
    by (simp add: within_def prepareRequest_eq)
  show "within m s1 (final (transmit g t s1))"
    using finite_stream_write [OF assms] by (simp add: within_def transmit_eq)
  show "within m s (logRead r w s)" if "rpc_read g (net s) = (r, w)"
    using finite_stream_read [OF assms] finite_stream_end [OF assms] that
    by (cases r) (auto simp: within_def intro: less_imp_le)
qed (auto simp: within_def transp_def)

text \<open>A call has enough fuel when it does not end in \<open>OutOfFuel\<close>.\<close>

definition ran_out :: "'s call \<Rightarrow> bool" where
  "ran_out r \<longleftrightarrow> (\<exists>s. r = Inl (OutOfFuel, s))"

lemma ran_out_simps [simp]:
  "\<not> ran_out (Inr s)" "ran_out (halt e s) \<longleftrightarrow> e = OutOfFuel"
  by (auto simp: ran_out_def halt_def)

lemma ran_out_bind:
  "ran_out (bind_res r f) \<longleftrightarrow> ran_out r \<or> (\<exists>s. r = Inr s \<and> ran_out (f s))"
  by (cases r) (auto simp: ran_out_def)

lemma ran_out_elementary [simp]:
  "\<not> ran_out (prepareRequest t s)" "\<not> ran_out (transmit g t s)" "\<not> ran_out (pushQueue t s)"
  "\<not> ran_out (popQueue s)"
  by (simp_all add: prepareRequest_eq transmit_eq pushQueue_def popQueue_def
      split: option.split list.split)

text \<open>
  One lemma per call: with one unit more, given the bounds for the calls it makes. The
  bounds of the five calls are \<open>fuel_bound m s\<close> plus a constant each.
\<close>

definition fuel_bound :: "('w \<Rightarrow> nat) \<Rightarrow> 'w ads_client \<Rightarrow> nat" where
  "fuel_bound m s = 6 * m (net s) + queue_length s"

lemma fuel_queue:
  assumes "\<And>s. fuel_bound m s + 3 \<le> n \<Longrightarrow> \<not> ran_out (drainRequests g n s)"
    and "fuel_bound m s + 5 \<le> Suc n"
  shows "\<not> ran_out (queueDiscoveryRequest g (Suc n) t s)"
proof -
  have "\<not> ran_out (drainRequests g n s1)" if "pushQueue t (touch t s) = Inr s1" for s1
    using that assms(2)
    by (intro assms(1)) (auto simp: pushQueue_def fuel_bound_def queue_length_def split: option.splits)
  then show ?thesis by (auto simp: queueDiscoveryRequest_eq ran_out_bind)
qed

lemma fuel_drain:
  assumes fin: "finite_stream g m"
    and S: "\<And>t s. fuel_bound m s + 2 \<le> n \<Longrightarrow> \<not> ran_out (sendDiscoveryRequest g n t s)"
    and D: "\<And>s. fuel_bound m s + 3 \<le> n \<Longrightarrow> \<not> ran_out (drainRequests g n s)"
    and b: "fuel_bound m s + 3 \<le> Suc n"
  shows "\<not> ran_out (drainRequests g (Suc n) s)"
proof -
  have "\<not> ran_out (drainRequests g n s2)"
    if "sendDiscoveryRequest g n u s = Inr s1" "popQueue s1 = Inr s2" for u s1 s2
  proof (rule D)
    have "m (net s1) \<le> m (net s)"
      using request_path_rel.request_path(3) [OF request_path_within [OF fin], of s n u] that(1)
      by (simp add: within_def)
    moreover have "net s2 = net s1" "Suc (queue_length s2) = queue_length s1"
      using that(2) by (auto simp: popQueue_def queue_length_def split: option.splits list.splits)
    moreover have "queue_length s1 \<le> queue_length s"
      by (rule queue_kept_length [OF sendDiscoveryRequest_queue [OF that(1)]])
    ultimately show "fuel_bound m s2 + 3 \<le> n" using b by (simp add: fuel_bound_def)
  qed
  with S b show ?thesis by (auto simp: ran_out_bind split: option.split list.split)
qed

lemma fuel_send:
  assumes fin: "finite_stream g m"
    and L: "\<And>s. fuel_bound m s + 1 \<le> n \<Longrightarrow> \<not> ran_out (readResponses g n s)"
    and b: "fuel_bound m s + 2 \<le> Suc n"
  shows "\<not> ran_out (sendDiscoveryRequest g (Suc n) t s)"
proof -
  have "\<not> ran_out (readResponses g n s2)"
    if "prepareRequest t s = Inr s1" "transmit g t s1 = Inr s2" for s1 s2
  proof (rule L)
    have "net s1 = net s" "queue_length s2 = queue_length s"
      using that by (auto simp: prepareRequest_eq transmit_eq queue_length_def split: if_splits)
    moreover have "m (net s2) \<le> m (net s1)"
      using that(2) finite_stream_write [OF fin] by (auto simp: transmit_eq split: if_splits)
    ultimately show "fuel_bound m s2 + 1 \<le> n" using b by (simp add: fuel_bound_def)
  qed
  then show ?thesis by (auto simp: ran_out_bind)
qed

lemma fuel_read:
  assumes fin: "finite_stream g m"
    and L: "\<And>s. fuel_bound m s + 1 \<le> n \<Longrightarrow> \<not> ran_out (readResponses g n s)"
    and O: "\<And>r s. fuel_bound m s + 6 \<le> n \<Longrightarrow> \<not> ran_out (onDiscoveryResponse g n r s)"
    and b: "fuel_bound m s + 1 \<le> Suc n"
  shows "\<not> ran_out (readResponses g (Suc n) s)"
proof -
  obtain x w where rw: "rpc_read g (net s) = (x, w)" by force
  show ?thesis
  proof (cases x)
    case (Some r)
    let ?s = "logRead (Some r) w s"
    have less: "m w < m (net s)" using finite_stream_read [OF fin] rw Some by simp
    have ql: "queue_length ?s = queue_length s" by (simp add: queue_length_def)
    have on: "\<not> ran_out (onDiscoveryResponse g n r ?s)"
      by (rule O) (use less b ql in \<open>simp add: fuel_bound_def\<close>)
    have "\<not> ran_out (readResponses g n s1)" if "onDiscoveryResponse g n r ?s = Inr s1" for s1
    proof (rule L)
      have "m (net s1) \<le> m w"
        using request_path_rel.request_path(5) [OF request_path_within [OF fin], of ?s n r] that
        by (simp add: within_def)
      moreover have "queue_length s1 \<le> queue_length s"
        using queue_kept_length [OF onDiscoveryResponse_queue [OF that]] ql by simp
      ultimately show "fuel_bound m s1 + 1 \<le> n" using less b by (simp add: fuel_bound_def)
    qed
    with on rw Some show ?thesis by (auto simp: ran_out_bind)
  qed (simp add: rw)
qed

lemma fuel_response:
  assumes "\<And>t s. fuel_bound m s + 5 \<le> n \<Longrightarrow> \<not> ran_out (queueDiscoveryRequest g n t s)"
    and "fuel_bound m s + 6 \<le> Suc n"
  shows "\<not> ran_out (onDiscoveryResponse g (Suc n) r s)"
  using assms(1) [of "recordResponse r s" "resp_type_url r"] assms(2)
  by (simp add: onDiscoveryResponse_eq fuel_bound_def queue_length_def)

lemma enough_fuel:
  assumes fin: "finite_stream g m"
  shows "fuel_bound m s + 5 \<le> n \<Longrightarrow> \<not> ran_out (queueDiscoveryRequest g n t s)"
    and "fuel_bound m s + 3 \<le> n \<Longrightarrow> \<not> ran_out (drainRequests g n s)"
    and "fuel_bound m s + 2 \<le> n \<Longrightarrow> \<not> ran_out (sendDiscoveryRequest g n t s)"
    and "fuel_bound m s + 1 \<le> n \<Longrightarrow> \<not> ran_out (readResponses g n s)"
    and "fuel_bound m s + 6 \<le> n \<Longrightarrow> \<not> ran_out (onDiscoveryResponse g n r s)"
proof (induction n arbitrary: s t r)
  case (Suc n)
  {
    case 1
    show ?case by (rule fuel_queue [where m = m, OF _ 1]) (rule Suc.IH)
  next
    case 2
    show ?case by (rule fuel_drain [OF fin _ _ 2]) (rule Suc.IH, assumption)+
  next
    case 3
    show ?case by (rule fuel_send [OF fin _ 3]) (rule Suc.IH)
  next
    case 4
    show ?case by (rule fuel_read [OF fin _ _ 4]) (rule Suc.IH, assumption)+
  next
    case 5
    show ?case by (rule fuel_response [where m = m, OF _ 5]) (rule Suc.IH)
  }
qed simp_all

section \<open>The only fault of a well-formed client\<close>

definition live :: "address set \<Rightarrow> 'w ads_client \<Rightarrow> bool" where
  "live P s \<longleftrightarrow> wf_except P s \<and> stream s"

lemma live_step: "live P s \<Longrightarrow> path_rel P s s' \<Longrightarrow> live P s'"
  using path_wf [of P s s'] by (auto simp: live_def same_watches_def)

lemma live_final: "path_rel P s (final r) \<Longrightarrow> r = Inr s' \<Longrightarrow> live P s \<Longrightarrow> live P s'"
  using live_step [of P s s'] by simp

lemmas live_send = live_final [OF path.request_path(3)]
  and live_on = live_final [OF path.request_path(5)]
  and live_pop = live_final [OF path.R_pop]
  and live_push = live_final [OF path.R_push]
  and live_record = live_step [OF _ path.R_record]

lemma live_prepared: "prepareRequest t s = Inr s' \<Longrightarrow> live P s \<Longrightarrow> live P s'"
  using prepareRequest_wf [of P s t s'] prepareRequest_keeps(2) [of t s s']
  by (simp add: live_def same_watches_def)

lemma live_logRead: "live P s \<Longrightarrow> live P (logRead r w s)"
  by (simp add: live_def wf_logRead)

lemma live_touch: "live P s \<Longrightarrow> live P (touch t s)"
  by (simp add: live_def wf_touch)

lemma live_transmit:
  "live P s \<Longrightarrow> prepareRequest t s = Inr s1 \<Longrightarrow> \<exists>s2. transmit g t s1 = Inr s2 \<and> live P s2"
  using transmit_wf [of P s1 t g] live_prepared [of t s s1 P] prepareRequest_keeps(8) [of t s s1]
  by (auto simp: live_def same_watches_def)

lemma live_prepare: "live P s \<Longrightarrow> \<exists>s1. prepareRequest t s = Inr s1"
  using wf_watches_live [of P s t] by (simp add: prepareRequest_eq live_def)

text \<open>A call ends normally, at the pop of an empty queue, or for want of fuel.\<close>

definition tame :: "'s call \<Rightarrow> bool" where
  "tame r \<longleftrightarrow> (\<forall>e s. r = Inl (e, s) \<longrightarrow> e = PopEmptyQueue \<or> e = OutOfFuel)"

lemma tame_simps [simp]:
  "tame (Inr s)" "tame (halt e s) \<longleftrightarrow> e = PopEmptyQueue \<or> e = OutOfFuel"
  by (auto simp: tame_def halt_def)

lemma tame_bind: "tame r \<Longrightarrow> (\<And>s. r = Inr s \<Longrightarrow> tame (f s)) \<Longrightarrow> tame (bind_res r f)"
  by (cases r) (auto simp: tame_def)

lemma tame_pop: "live P s \<Longrightarrow> tame (popQueue s)"
  by (auto simp: live_def popQueue_def dest: wf_queue split: option.split list.split)

text \<open>The two steps of the drain loop, given that the calls they make are tame.\<close>

lemma tame_queue_step:
  assumes "live P s" and "\<And>s1. live P s1 \<Longrightarrow> tame (drainRequests g n s1)"
  shows "tame (queueDiscoveryRequest g (Suc n) t s)"
proof -
  have "tame (bind_res (pushQueue t (touch t s)) (drainRequests g n))"
  proof (rule tame_bind)
    show "tame (pushQueue t (touch t s))"
      using assms(1) by (auto simp: pushQueue_def live_def dest: wf_queue)
    show "tame (drainRequests g n s1)" if "pushQueue t (touch t s) = Inr s1" for s1
      by (rule assms(2) [OF live_push [OF that live_touch [OF assms(1)]]])
  qed
  then show ?thesis by (simp add: queueDiscoveryRequest_eq)
qed

lemma tame_drain_step:
  assumes l: "live P s" and "\<And>u. tame (sendDiscoveryRequest g n u s)"
    and "\<And>s1. live P s1 \<Longrightarrow> tame (drainRequests g n s1)"
  shows "tame (drainRequests g (Suc n) s)"
proof -
  have "tame (bind_res (sendDiscoveryRequest g n u s) (\<lambda>s1. bind_res (popQueue s1) (drainRequests g n)))" for u
  proof (intro tame_bind assms(2,3))
    fix s1 assume "sendDiscoveryRequest g n u s = Inr s1"
    then have s1: "live P s1" using l by (rule live_send)
    then show "tame (popQueue s1)" by (rule tame_pop)
    show "live P s2" if "popQueue s1 = Inr s2" for s2 by (rule live_pop [OF that s1])
  qed
  with l show ?thesis by (auto simp: live_def dest: wf_queue split: option.split list.split)
qed

lemma tame_path:
  "live P s \<Longrightarrow> tame (queueDiscoveryRequest g n t s)"
  "live P s \<Longrightarrow> tame (drainRequests g n s)"
  "live P s \<Longrightarrow> tame (sendDiscoveryRequest g n t s)"
  "live P s \<Longrightarrow> tame (readResponses g n s)"
  "live P s \<Longrightarrow> tame (onDiscoveryResponse g n m s)"
proof (induction n arbitrary: s t m)
  case (Suc n)
  {
    case 1
    then show ?case by (rule tame_queue_step [OF _ Suc.IH(2)])
  next
    case 2
    then show ?case using Suc.IH(2,3) by (blast intro: tame_drain_step)
  next
    case 3
    obtain s1 where s1: "prepareRequest t s = Inr s1" using live_prepare [OF 3] by blast
    obtain s2 where "transmit g t s1 = Inr s2" "live P s2" using live_transmit [OF 3 s1] by blast
    with s1 Suc.IH(4) show ?case by simp
  next
    case 4
    show ?case
    proof (cases "rpc_read g (net s)")
      case (Pair r w)
      have ls: "live P (logRead r w s)" by (rule live_logRead [OF 4])
      with Pair show ?thesis
        by (cases r) (auto intro!: tame_bind Suc.IH dest: live_on)
    qed
  next
    case 5
    then show ?case by (auto simp: onDiscoveryResponse_eq intro!: Suc.IH live_record)
  }
qed simp_all

section \<open>When a queued request returns\<close>

text \<open>
  A message is quiet when \<^verbatim>\<open>onDiscoveryResponse\<close> does not queue another request for it: its
  type has no state, or there is neither a watch nor a resource.
\<close>

definition quiet :: "'w ads_client \<Rightarrow> discovery_response \<Rightarrow> bool" where
  "quiet s m \<longleftrightarrow> api_states s (resp_type_url m) = None \<or> \<not> wants_request m s"

lemma quiet_cong:
  assumes "dom (api_states s') = dom (api_states s)" and "same_watches s s'"
  shows "quiet s' m = quiet s m"
  using assms by (auto simp: quiet_def wants_request_def same_watches_def domIff)

lemma quiet_logRead [simp]: "quiet (logRead r w s) m = quiet s m"
  by (simp add: quiet_def wants_request_def)

text \<open>What quiet messages leave alone: all but versions, nonces and the fetched flag.\<close>

definition settled :: "'w ads_client \<Rightarrow> 'w ads_client \<Rightarrow> bool" where
  "settled s s' \<longleftrightarrow> request_queue s' = request_queue s \<and> subscriptions s' = subscriptions s \<and>
    dom (api_states s') = dom (api_states s) \<and> same_watches s s' \<and>
    first_stream_request s' = first_stream_request s \<and>
    (\<forall>t. subscribed (api_of s' t) = subscribed (api_of s t) \<and>
      req_node (request (api_of s' t)) = req_node (request (api_of s t)))"

lemma settled_refl [simp]: "settled s s"
  by (simp add: settled_def same_watches_def)

lemma settled_trans: "settled s s' \<Longrightarrow> settled s' s'' \<Longrightarrow> settled s s''"
  by (simp add: settled_def same_watches_def)

lemma settled_quiet: "settled s s' \<Longrightarrow> quiet s' m = quiet s m"
  by (rule quiet_cong) (simp_all add: settled_def)

lemma settled_logRead: "settled s (logRead r w s)"
  by (simp add: settled_def same_watches_def)

lemma settled_recordResponse:
  "api_states s (resp_type_url m) \<noteq> None \<Longrightarrow> settled s (recordResponse m s)"
  by (simp add: settled_def same_watches_recordResponse)
    (auto simp: recordResponse_def Let_def domIff insert_absorb)

lemma on_quiet:
  "quiet s m \<Longrightarrow> \<exists>s'. onDiscoveryResponse g (Suc n) m s = Inr s' \<and> io_log s' = io_log s \<and> settled s s'"
  by (auto simp: onDiscoveryResponse_eq settled_recordResponse) (auto simp: quiet_def)

lemma on_loud:
  assumes "live P s" and "\<not> quiet s m" and "onDiscoveryResponse g n m s = Inr s'"
  shows "request_queue s' = Some []"
proof (cases n)
  case (Suc k)
  have rec: "live P (recordResponse m s)"
    by (rule live_record [OF assms(1)]) (use assms(2) in \<open>simp add: quiet_def\<close>)
  from assms(2,3) Suc have "queueDiscoveryRequest g k (resp_type_url m) (recordResponse m s) = Inr s'"
    by (auto simp: onDiscoveryResponse_eq quiet_def split: if_splits)
  then show ?thesis
    using rec wf_not_paused [of P "recordResponse m s" "resp_type_url m"]
    by (cases k)
      (auto simp: queueDiscoveryRequest_eq live_def bind_res_Inr_iff dest: drainRequests_empties)
qed (use assms in simp)

text \<open>
  The read loop: it returns with the queue untouched when every message was quiet, and
  otherwise comes back, if at all, with the queue drained under its caller.
\<close>

lemma readResponses_extends:
  assumes "live P s" and "rpc_read g (net s) = (Some m, w)"
  obtains es where "io_log (final (readResponses g (Suc n) s)) = io_log s @ ReadMsg m # es"
proof -
  have "path_rel P (logRead (Some m) w s) (final (readResponses g (Suc n) s))"
    using assms(2) by (auto intro!: path.R_bind path.request_path)
  with live_logRead [OF assms(1), of "Some m" w] that show ?thesis
    by (auto simp: path_rel_def live_def)
qed

definition read_outcome :: "'w ads_client \<Rightarrow> 'w ads_client call \<Rightarrow> bool" where
  "read_outcome s r \<longleftrightarrow> (\<exists>es. io_log (final r) = io_log s @ es \<and>
    (if \<forall>m\<in>set (reads_of es). quiet s m
     then \<exists>s'. r = Inr s' \<and> settled s s' \<and> es = map ReadMsg (reads_of es) @ [ReadEnd]
     else \<forall>s'. r = Inr s' \<longrightarrow> request_queue s' = Some []))"

lemma read_outcome_quiet:
  assumes "settled s s1" and "io_log s1 = io_log s @ [ReadMsg m]" and "quiet s m" and "read_outcome s1 r"
  shows "read_outcome s r"
proof -
  from assms(4) [unfolded read_outcome_def settled_quiet [OF assms(1)]] obtain es where
    "io_log (final r) = io_log s1 @ es"
    "if \<forall>m\<in>set (reads_of es). quiet s m
     then \<exists>s'. r = Inr s' \<and> settled s1 s' \<and> es = map ReadMsg (reads_of es) @ [ReadEnd]
     else \<forall>s'. r = Inr s' \<longrightarrow> request_queue s' = Some []"
    by blast
  then show ?thesis
    unfolding read_outcome_def using assms(2,3) settled_trans [OF assms(1)]
    by (intro exI [of _ "ReadMsg m # es"]) auto
qed

lemma read_outcome_loud:
  assumes "live P s" and r: "rpc_read g (net s) = (Some m, w)" and "\<not> quiet s m"
  shows "read_outcome s (readResponses g (Suc n) s)"
proof -
  let ?s = "logRead (Some m) w s"
  obtain es where es: "io_log (final (readResponses g (Suc n) s)) = io_log s @ ReadMsg m # es"
    using readResponses_extends [OF assms(1) r] by blast
  have "request_queue s' = Some []" if "readResponses g (Suc n) s = Inr s'" for s'
  proof -
    from that r obtain s1 where "onDiscoveryResponse g n m ?s = Inr s1" "readResponses g n s1 = Inr s'"
      by (auto elim: bind_res_InrE)
    with on_loud [OF live_logRead [OF assms(1)]] assms(3) readResponses_queue [of g n s1 s'] show ?thesis
      by (auto simp: queue_kept_def)
  qed
  with assms(3) es show ?thesis
    unfolding read_outcome_def by (intro exI [of _ "ReadMsg m # es"]) auto
qed

lemma readResponses_outcome:
  "live P s \<Longrightarrow> \<not> ran_out (readResponses g n s) \<Longrightarrow> read_outcome s (readResponses g n s)"
proof (induction n arbitrary: s)
  case (Suc n)
  obtain r w where rw: "rpc_read g (net s) = (r, w)" by force
  show ?case
  proof (cases r)
    case None
    with rw show ?thesis by (simp add: settled_logRead read_outcome_def)
  next
    case (Some m)
    let ?s = "logRead (Some m) w s"
    have eq: "readResponses g (Suc n) s = bind_res (onDiscoveryResponse g n m ?s) (readResponses g n)"
      using rw Some by simp
    show ?thesis
    proof (cases "quiet s m")
      case True
      then have q: "quiet ?s m" by simp
      obtain k where k: "n = Suc k" using Suc.prems(2) eq by (cases n) auto
      obtain s1 where on: "onDiscoveryResponse g n m ?s = Inr s1"
        "io_log s1 = io_log s @ [ReadMsg m]" "settled s s1"
        using on_quiet [OF q, of g k] settled_trans [OF settled_logRead, of "Some m" w s] k by auto
      have "read_outcome s1 (readResponses g n s1)"
        by (rule Suc.IH [OF live_on [OF on(1) live_logRead [OF Suc.prems(1)]]]) (use Suc.prems(2) eq on(1) in simp)
      from read_outcome_quiet [OF on(3,2) True this] show ?thesis by (simp only: eq on(1) bind_res_simps)
    qed (use read_outcome_loud [OF Suc.prems(1)] rw Some in blast)
  qed
qed simp

text \<open>The state in which the read loop of \<^verbatim>\<open>sendDiscoveryRequest\<close> starts.\<close>

definition next_request :: "'w ads_client \<Rightarrow> string \<Rightarrow> discovery_request" where
  "next_request s t = request (attach t (names_for s t) (first_stream_request s) (api_of s t))"

definition sent :: "'w sync_rpc \<Rightarrow> string \<Rightarrow> 'w ads_client \<Rightarrow> 'w ads_client" where
  "sent g t s = (modifyApi t (\<lambda>a. modifyRequest (\<lambda>r. r\<lparr>req_error_detail := None\<rparr>)
       (attach t (names_for s t) (first_stream_request s) a)) s)
     \<lparr>subscriptions := subscriptions s @
        (if (must_send_node (api_of s t) \<or> first_stream_request s) \<and> \<not> subscribed (api_of s t)
         then [t] else []),
      net := snd (rpc_write g (next_request s t) (net s)),
      io_log := io_log s @ [Wrote (next_request s t)], first_stream_request := False\<rparr>"

lemma sent_frame [simp]:
  "stub (sent g t s) = stub s" "stream (sent g t s) = stream s"
  "request_queue (sent g t s) = request_queue s" "shutdown_flag (sent g t s) = shutdown_flag s"
  "watchers (sent g t s) = watchers s" "\<not> first_stream_request (sent g t s)"
  "io_log (sent g t s) = io_log s @ [Wrote (next_request s t)]"
  "net (sent g t s) = snd (rpc_write g (next_request s t) (net s))"
  "dom (api_states (sent g t s)) = insert t (dom (api_states s))"
  "api_of (sent g t s) u = (if u = t then modifyRequest (\<lambda>r. r\<lparr>req_error_detail := None\<rparr>)
     (attach t (names_for s t) (first_stream_request s) (api_of s t)) else api_of s u)"
  by (auto simp: sent_def)

lemma same_watches_sent: "same_watches s (sent g t s)"
  by (simp add: same_watches_def)

lemma quiet_sent [simp]: "quiet (sent g t s) m = quiet (touch t s) m"
  by (rule quiet_cong) (auto simp: same_watches_def)

lemma transmit_sent:
  assumes "live P s"
  obtains s1 where "prepareRequest t s = Inr s1" and "transmit g t s1 = Inr (sent g t s)"
proof -
  obtain s1 where s1: "prepareRequest t s = Inr s1" using live_prepare [OF assms] by blast
  moreover from this have "transmit g t s1 = Inr (sent g t s)"
    using assms wf_watches_live [of P s t]
    by (auto simp: prepareRequest_eq transmit_eq live_def sent_def next_request_def modifyApi_eq api_of_def)
  ultimately show ?thesis by (rule that)
qed

lemma send_eq:
  assumes "live P s" and "\<not> shutdown_flag s"
  shows "sendDiscoveryRequest g (Suc n) t s = readResponses g n (sent g t s)"
proof -
  obtain s1 where "prepareRequest t s = Inr s1" "transmit g t s1 = Inr (sent g t s)"
    by (rule transmit_sent [OF assms(1)])
  with assms(2) show ?thesis by simp
qed

lemma live_sent:
  assumes "live P s"
  shows "live P (sent g t s)"
proof -
  obtain s1 where "prepareRequest t s = Inr s1" "transmit g t s1 = Inr (sent g t s)"
    by (rule transmit_sent [OF assms])
  with live_transmit [OF assms, of t s1 g] show ?thesis by simp
qed

lemma drain_single:
  assumes "request_queue s = Some [t]"
  shows "drainRequests g (Suc (Suc n)) s =
    bind_res (sendDiscoveryRequest g (Suc n) t s) (\<lambda>s1. bind_res (popQueue s1) (drainRequests g (Suc n)))"
  using assms by (simp del: sendDiscoveryRequest.simps drainRequests.simps(2) add: drainRequests.simps(2) [of g "Suc n" s])

text \<open>One request pushed on an idle queue, up to the read loop of its transmission.\<close>

abbreviation queued_alone :: "string \<Rightarrow> 'w ads_client \<Rightarrow> 'w ads_client" where
  "queued_alone t s \<equiv> (touch t s)\<lparr>request_queue := Some [t]\<rparr>"

lemma idle_queue_starts:
  assumes live: "live P s" and idle: "request_queue s = Some []" and up: "\<not> shutdown_flag s"
    and fuel: "\<not> ran_out (queueDiscoveryRequest g n t s)"
  obtains k where "queueDiscoveryRequest g n t s =
      bind_res (readResponses g k (sent g t (queued_alone t s)))
        (\<lambda>s1. bind_res (popQueue s1) (drainRequests g (Suc k)))"
    and "live P (sent g t (queued_alone t s))"
proof -
  have np: "\<not> paused (api_of s t)" and st: "stream s"
    using live wf_not_paused by (auto simp: live_def)
  have push: "pushQueue t (touch t s) = Inr (queued_alone t s)" by (simp add: pushQueue_def idle)
  have eq: "queueDiscoveryRequest g (Suc i) t s = drainRequests g i (queued_alone t s)" for i
    using push st np by (simp add: queueDiscoveryRequest_eq)
  obtain k where n: "n = Suc (Suc (Suc k))"
  proof -
    from fuel obtain a where a: "n = Suc a" by (cases n) auto
    with fuel eq obtain b where b: "a = Suc b" by (cases a) auto
    with fuel eq a obtain k where "b = Suc k" by (cases b) auto
    with a b that show ?thesis by blast
  qed
  have ls: "live P (queued_alone t s)" by (rule live_push [OF push live_touch [OF live]])
  show ?thesis
    using send_eq [OF ls] up
    by (intro that [OF _ live_sent [OF ls], of k])
      (simp add: n eq drain_single del: drainRequests.simps sendDiscoveryRequest.simps)
qed

lemma quiet_queued_alone: "quiet (sent g t (queued_alone t s)) m = quiet (touch t s) m"
  unfolding quiet_sent by (simp add: quiet_def wants_request_def)

lemma idle_queue_outcome:
  assumes live: "live P s" and idle: "request_queue s = Some []" and up: "\<not> shutdown_flag s"
    and fuel: "\<not> ran_out (queueDiscoveryRequest g n t s)"
  shows "\<exists>es. io_log (final (queueDiscoveryRequest g n t s)) =
      io_log s @ Wrote (next_request (touch t s) t) # es \<and>
    (if \<forall>m\<in>set (reads_of es). quiet (touch t s) m
     then \<exists>s'. queueDiscoveryRequest g n t s = Inr s' \<and> es = map ReadMsg (reads_of es) @ [ReadEnd] \<and>
       request_queue s' = Some [] \<and>
       settled (sent g t (queued_alone t s)) (s'\<lparr>request_queue := Some [t]\<rparr>)
     else \<exists>s'. queueDiscoveryRequest g n t s = Inl (PopEmptyQueue, s'))"
proof -
  let ?s2 = "sent g t (queued_alone t s)"
  obtain k where eq: "queueDiscoveryRequest g n t s =
      bind_res (readResponses g k ?s2) (\<lambda>s1. bind_res (popQueue s1) (drainRequests g (Suc k)))"
    and s2: "live P ?s2"
    by (rule idle_queue_starts [OF live idle up fuel])
  have log: "io_log ?s2 = io_log s @ [Wrote (next_request (touch t s) t)]"
    by (simp add: next_request_def names_for_def)
  have fuel': "\<not> ran_out (readResponses g k ?s2)" using fuel eq by (simp add: ran_out_bind)
  obtain es where es: "io_log (final (readResponses g k ?s2)) = io_log ?s2 @ es"
    "if \<forall>m\<in>set (reads_of es). quiet (touch t s) m
     then \<exists>s'. readResponses g k ?s2 = Inr s' \<and> settled ?s2 s' \<and>
       es = map ReadMsg (reads_of es) @ [ReadEnd]
     else \<forall>s'. readResponses g k ?s2 = Inr s' \<longrightarrow> request_queue s' = Some []"
    using readResponses_outcome [OF s2 fuel', unfolded read_outcome_def quiet_queued_alone] by blast
  show ?thesis
  proof (cases "\<forall>m\<in>set (reads_of es). quiet (touch t s) m")
    case True
    with es obtain s' where s': "readResponses g k ?s2 = Inr s'" "settled ?s2 s'"
      "es = map ReadMsg (reads_of es) @ [ReadEnd]"
      by auto
    then have q: "request_queue s' = Some [t]" by (simp add: settled_def)
    have "settled ?s2 (s'\<lparr>request_queue := Some [t]\<rparr>)"
      using s'(2) q by (simp add: settled_def same_watches_def)
    with True es s' q log eq show ?thesis by (intro exI [of _ es]) (simp add: popQueue_def)
  next
    case False
    have "\<exists>s'. queueDiscoveryRequest g n t s = Inl (PopEmptyQueue, s') \<and>
        io_log s' = io_log (final (readResponses g k ?s2))"
    proof (cases "readResponses g k ?s2")
      case (Inl p)
      with fuel' tame_path(4) [OF s2, of g k] show ?thesis
        by (cases p) (auto simp: eq tame_def ran_out_def)
    next
      case (Inr s')
      with False es(2) show ?thesis by (simp add: eq popQueue_def halt_def)
    qed
    with False es log show ?thesis by (intro exI [of _ es]) auto
  qed
qed

section \<open>Which request is on the wire\<close>

text \<open>
  While a request is being sent it stays at the front of the queue, so a nested drain sends
  it again and not the one that was queued. Up to the end of the stream every request on the
  wire is of the front's type, and names it when the type is subscribed or becomes so with
  the first request of the stream.
\<close>

definition before_end :: "io_event list \<Rightarrow> io_event list" where
  "before_end es = takeWhile (\<lambda>e. e \<noteq> ReadEnd) es"

definition writes_only :: "string \<Rightarrow> io_event list \<Rightarrow> bool" where
  "writes_only t es \<longleftrightarrow>
    (\<forall>r\<in>set (writes_of (before_end es)). req_type_url r = t)"

lemma before_end_append:
  "before_end (es @ fs) = (if ReadEnd \<in> set es then before_end es else es @ before_end fs)"
  by (auto simp: before_end_def takeWhile_append_hit intro!: takeWhile_append2)

lemma before_end_all: "ReadEnd \<notin> set es \<Longrightarrow> before_end es = es"
  by (auto simp: before_end_def takeWhile_eq_all_conv)

lemma writes_only_append:
  "writes_only t es \<Longrightarrow> (ReadEnd \<notin> set es \<Longrightarrow> writes_only t fs) \<Longrightarrow> writes_only t (es @ fs)"
  by (auto simp: writes_only_def before_end_append before_end_all)

text \<open>
  The outcome of a call made while \<open>t\<close> is at the front: only requests of type \<open>t\<close> before the
  stream ends, and if the call returns, either the stream has ended or \<open>keep\<close> holds.
\<close>

definition front_only ::
    "('w ads_client \<Rightarrow> bool) \<Rightarrow> string \<Rightarrow> 'w ads_client \<Rightarrow> 'w ads_client call \<Rightarrow> bool" where
  "front_only keep t s r \<longleftrightarrow> (\<exists>es. io_log (final r) = io_log s @ es \<and> writes_only t es \<and>
     (ReadEnd \<in> set es \<or> (\<forall>s'. r = Inr s' \<longrightarrow> keep s')))"

definition at_front :: "string \<Rightarrow> 'w ads_client \<Rightarrow> bool" where
  "at_front t s \<longleftrightarrow> (\<exists>q. request_queue s = Some (t # q)) \<and> \<not> shutdown_flag s \<and>
     (subscribed (api_of s t) \<or> first_stream_request s)"

lemma front_only_bind:
  assumes "front_only keep t s r"
    and "\<And>s1. r = Inr s1 \<Longrightarrow> \<exists>fs. io_log (final (f s1)) = io_log s1 @ fs"
    and "\<And>s1. r = Inr s1 \<Longrightarrow> keep s1 \<Longrightarrow> front_only keep' t s1 (f s1)"
  shows "front_only keep' t s (bind_res r f)"
proof (cases r)
  case (Inl p)
  with assms(1) show ?thesis by (auto simp: front_only_def)
next
  case (Inr s1)
  with assms(1) obtain es where es: "io_log s1 = io_log s @ es" "writes_only t es"
    "ReadEnd \<in> set es \<or> keep s1"
    by (auto simp: front_only_def)
  show ?thesis
  proof (cases "ReadEnd \<in> set es")
    case True
    obtain fs where "io_log (final (f s1)) = io_log s1 @ fs" using assms(2) [OF Inr] by blast
    with True es Inr show ?thesis
      by (auto simp: front_only_def intro!: exI [of _ "es @ fs"] writes_only_append)
  next
    case False
    with es assms(3) [OF Inr] obtain fs where "io_log (final (f s1)) = io_log s1 @ fs"
      "writes_only t fs" "ReadEnd \<in> set fs \<or> (\<forall>s'. f s1 = Inr s' \<longrightarrow> keep' s')"
      by (auto simp: front_only_def)
    with False es Inr show ?thesis
      by (auto simp: front_only_def intro!: exI [of _ "es @ fs"] writes_only_append)
  qed
qed

lemma log_extends:
  assumes "live P s"
  shows "\<exists>fs. io_log (final (drainRequests g n s)) = io_log s @ fs"
    and "\<exists>fs. io_log (final (readResponses g n s)) = io_log s @ fs"
  using assms path.request_path(2,4) [of P s g n] by (auto simp: path_rel_def live_def)

lemma front_only_send:
  assumes "live P s" and "at_front t s"
    and L: "\<And>s. live P s \<Longrightarrow> at_front t s \<Longrightarrow> front_only (\<lambda>_. False) t s (readResponses g n s)"
  shows "front_only (\<lambda>_. False) t s (sendDiscoveryRequest g (Suc n) t s)"
proof -
  have "wf_api s t (api_of s t)" using assms(1) wf_api_of by (auto simp: live_def)
  then have q: "req_type_url (next_request s t) = t"
    using assms(2) by (auto simp: at_front_def wf_api_def attach_def Let_def modifyRequest_def next_request_def)
  have "at_front t (sent g t s)" using assms(2) by (auto simp: at_front_def)
  from L [OF live_sent [OF assms(1)] this] obtain es where
    "io_log (final (readResponses g n (sent g t s))) = io_log (sent g t s) @ es"
    "writes_only t es" "ReadEnd \<in> set es \<or> (\<forall>s'. readResponses g n (sent g t s) \<noteq> Inr s')"
    by (auto simp: front_only_def)
  moreover have "sendDiscoveryRequest g (Suc n) t s = readResponses g n (sent g t s)"
    using assms(2) by (intro send_eq [OF assms(1)]) (simp add: at_front_def)
  ultimately show ?thesis
    using q by (auto simp: front_only_def writes_only_def before_end_def
        intro!: exI [of _ "Wrote (next_request s t) # es"])
qed

lemma front_only_halt [simp]: "front_only keep t s (halt e s)"
  by (auto simp: front_only_def writes_only_def before_end_def)

lemma front_only_skip: "io_log s' = io_log s \<Longrightarrow> keep s' \<Longrightarrow> front_only keep t s (Inr s')"
  by (auto simp: front_only_def writes_only_def before_end_def)

lemma front_only_log:
  "front_only keep t s1 r \<Longrightarrow> io_log s1 = io_log s @ es \<Longrightarrow> writes_of es = [] \<Longrightarrow> ReadEnd \<notin> set es \<Longrightarrow>
   front_only keep t s r"
  by (force simp: front_only_def writes_only_def before_end_append)

lemma front_only_queue:
  assumes "live P s" and "at_front t s"
    and D: "\<And>s. live P s \<Longrightarrow> at_front t s \<Longrightarrow> front_only (\<lambda>_. False) t s (drainRequests g n s)"
  shows "front_only (\<lambda>_. False) t s (queueDiscoveryRequest g (Suc n) u s)"
proof -
  from assms(2) obtain q where q: "request_queue s = Some (t # q)" by (auto simp: at_front_def)
  let ?s = "(touch u s)\<lparr>request_queue := Some (t # q @ [u])\<rparr>"
  have push: "pushQueue u (touch u s) = Inr ?s" by (simp add: pushQueue_def q)
  have "front_only (\<lambda>_. False) t ?s (drainRequests g n ?s)"
    using assms(2) by (intro D live_push [OF push live_touch [OF assms(1)]]) (simp add: at_front_def)
  then have "front_only (\<lambda>_. False) t s (drainRequests g n ?s)"
    by (rule front_only_log [where es = "[]"]) simp_all
  then show ?thesis
    using assms(1) wf_not_paused by (auto simp: queueDiscoveryRequest_eq push live_def)
qed

lemma front_only_drain:
  assumes "live P s" and "at_front t s"
    and S: "front_only (\<lambda>_. False) t s (sendDiscoveryRequest g n t s)"
  shows "front_only (\<lambda>_. False) t s (drainRequests g (Suc n) s)"
proof -
  have "front_only (\<lambda>_. False) t s (bind_res (sendDiscoveryRequest g n t s)
      (\<lambda>s1. bind_res (popQueue s1) (drainRequests g n)))"
  proof (rule front_only_bind [OF S])
    fix s1 assume "sendDiscoveryRequest g n t s = Inr s1"
    then have "live P s1" using assms(1) by (rule live_send)
    then have "path_rel P s1 (final (bind_res (popQueue s1) (drainRequests g n)))" "wf_except P s1"
      by (auto simp: live_def intro!: path.R_bind path.R_pop path.request_path)
    then show "\<exists>fs. io_log (final (bind_res (popQueue s1) (drainRequests g n))) = io_log s1 @ fs"
      by (auto simp: path_rel_def)
  qed simp
  with assms(2) show ?thesis by (auto simp: at_front_def)
qed

lemma front_only_read:
  assumes "live P s" and "at_front t s"
    and O: "\<And>m s. live P s \<Longrightarrow> at_front t s \<Longrightarrow> front_only (at_front t) t s (onDiscoveryResponse g n m s)"
    and L: "\<And>s. live P s \<Longrightarrow> at_front t s \<Longrightarrow> front_only (\<lambda>_. False) t s (readResponses g n s)"
  shows "front_only (\<lambda>_. False) t s (readResponses g (Suc n) s)"
proof -
  obtain r w where rw: "rpc_read g (net s) = (r, w)" by force
  show ?thesis
  proof (cases r)
    case None
    with rw show ?thesis by (auto simp: front_only_def writes_only_def before_end_def)
  next
    case (Some m)
    let ?s = "logRead (Some m) w s"
    have ls: "live P ?s" by (rule live_logRead [OF assms(1)])
    have "front_only (\<lambda>_. False) t ?s (bind_res (onDiscoveryResponse g n m ?s) (readResponses g n))"
      using assms(2) ls live_on [of g n m ?s _ P] log_extends(2) [of P]
      by (intro front_only_bind [OF O [OF ls]] L) (auto simp: at_front_def)
    then have "front_only (\<lambda>_. False) t s (bind_res (onDiscoveryResponse g n m ?s) (readResponses g n))"
      by (rule front_only_log [where es = "[ReadMsg m]"]) simp_all
    with rw Some show ?thesis by simp
  qed
qed

lemma front_only_response:
  assumes "live P s" and "at_front t s"
    and Q: "\<And>u s. live P s \<Longrightarrow> at_front t s \<Longrightarrow> front_only (\<lambda>_. False) t s (queueDiscoveryRequest g n u s)"
  shows "front_only (at_front t) t s (onDiscoveryResponse g (Suc n) m s)"
proof -
  have "front_only (at_front t) t s (queueDiscoveryRequest g n u (recordResponse m s))"
    if "api_states s (resp_type_url m) \<noteq> None" for u
  proof -
    have "front_only (\<lambda>_. False) t (recordResponse m s) (queueDiscoveryRequest g n u (recordResponse m s))"
      using assms(2) that by (intro Q live_record [OF assms(1)]) (simp_all add: at_front_def)
    then show ?thesis by (auto simp: front_only_def)
  qed
  with assms(2) show ?thesis
    by (auto simp: onDiscoveryResponse_eq at_front_def intro!: front_only_skip)
qed

lemma front_only_path:
  "live P s \<Longrightarrow> at_front t s \<Longrightarrow> front_only (\<lambda>_. False) t s (queueDiscoveryRequest g n u s)"
  "live P s \<Longrightarrow> at_front t s \<Longrightarrow> front_only (\<lambda>_. False) t s (drainRequests g n s)"
  "live P s \<Longrightarrow> at_front t s \<Longrightarrow> front_only (\<lambda>_. False) t s (sendDiscoveryRequest g n t s)"
  "live P s \<Longrightarrow> at_front t s \<Longrightarrow> front_only (\<lambda>_. False) t s (readResponses g n s)"
  "live P s \<Longrightarrow> at_front t s \<Longrightarrow> front_only (at_front t) t s (onDiscoveryResponse g n m s)"
proof (induction n arbitrary: s u m)
  case (Suc n)
  {
    case 1
    show ?case by (rule front_only_queue [OF 1]) (rule Suc.IH)
  next
    case 2
    show ?case by (rule front_only_drain [OF 2 Suc.IH(3) [OF 2]])
  next
    case 3
    show ?case by (rule front_only_send [OF 3]) (rule Suc.IH)
  next
    case 4
    show ?case by (rule front_only_read [OF 4]) (rule Suc.IH, assumption+)+
  next
    case 5
    show ?case by (rule front_only_response [OF 5]) (rule Suc.IH)
  }
qed simp_all

end
