(* ===== verification/Client_Operations.thy ===== *)
theory Client_Operations
  imports Request_Queue
begin

text \<open>
  The public operations of the multiplexer: each keeps the client well-formed, so every
  state a program can reach by calling them in any order is. The abstract view of the
  watches is a map from live watchers to their type and resource set; adding, updating and
  destroying a watch are the corresponding map updates, and what a request names is the
  union over that view.
\<close>

section \<open>Well-formedness of the public operations\<close>

lemma wf_AdsClient: "wf_client (AdsClient w)"
  by (rule wf_exceptI) (simp_all add: AdsClient_def api_of_def)

lemma wf_frame:
  assumes "wf_except P s" and "api_states s' = api_states s" and "watchers s' = watchers s"
    and "subscriptions s' = subscriptions s" and "stream s' = stream s"
    and "request_queue s' = request_queue s"
  shows "wf_except P s'"
  using assms by (intro wf_except_cong [OF assms(1)]) (auto dest: wf_queue)

lemma wf_setChannel: "wf_except P s \<Longrightarrow> wf_except P (setChannel s)"
  by (erule wf_frame) (simp_all add: setChannel_def)

lemma wf_queueDiscoveryRequest:
  "wf_except P s \<Longrightarrow> queueDiscoveryRequest g n t s = Inr s' \<Longrightarrow> wf_except P s'"
  using path.request_path(1) [of P s g n t] by (auto dest: path_wf)

lemma wf_onDiscoveryResponse:
  "wf_except P s \<Longrightarrow> onDiscoveryResponse g n m s = Inr s' \<Longrightarrow> wf_except P s'"
  using path.request_path(5) [of P s g n m] by (auto dest: path_wf)

text \<open>The state \<^verbatim>\<open>onStreamEstablished\<close> starts queueing in.\<close>

definition established :: "'w \<Rightarrow> 'w ads_client \<Rightarrow> 'w ads_client" where
  "established w s = clearNonce (s\<lparr>stream := True, net := w, io_log := io_log s @ [Opened True],
     first_stream_request := True\<rparr>)\<lparr>request_queue := Some []\<rparr>"

lemma established_frame [simp]:
  "stub (established w s) = stub s" "stream (established w s)"
  "subscriptions (established w s) = subscriptions s" "first_stream_request (established w s)"
  "request_queue (established w s) = Some []" "shutdown_flag (established w s) = shutdown_flag s"
  "watchers (established w s) = watchers s" "net (established w s) = w"
  "io_log (established w s) = io_log s @ [Opened True]"
  "api_of (established w s) t = modifyRequest (\<lambda>r. r\<lparr>req_response_nonce := []\<rparr>) (api_of s t)"
  by (simp_all add: established_def api_of_clearNonce)

lemma onStreamEstablished_eq:
  "onStreamEstablished g n s =
    (if \<not> stub s then halt NullStub s
     else if fst (rpc_open g (net s)) then requeueFrom g n 0 (established (snd (rpc_open g (net s))) s)
     else Inr (s\<lparr>stream := False, net := snd (rpc_open g (net s)), io_log := io_log s @ [Opened False]\<rparr>))"
  by (simp add: onStreamEstablished_def established_def split: prod.split)

lemma wf_established: "wf_except P s \<Longrightarrow> wf_except P (established w s)"
  using wf_api_of [of P s] wf_store [of P s]
  by (intro wf_exceptI) (auto simp: wf_api_def)

lemma wf_onStreamEstablished:
  assumes "wf_except P s" and "onStreamEstablished g n s = Inr s'"
  shows "wf_except P s'"
proof (cases "fst (rpc_open g (net s))")
  case True
  with assms(2) have "requeueFrom g n 0 (established (snd (rpc_open g (net s))) s) = Inr s'"
    by (auto simp: onStreamEstablished_eq split: if_splits)
  with path.requeue_path [of P "established (snd (rpc_open g (net s))) s" g n 0]
  show ?thesis using wf_established [OF assms(1)] by (auto dest: path_wf)
next
  case False
  with assms(2) have s': "s' = s\<lparr>stream := False, net := snd (rpc_open g (net s)),
      io_log := io_log s @ [Opened False]\<rparr>"
    by (auto simp: onStreamEstablished_eq split: if_splits)
  show ?thesis by (rule wf_except_cong [OF assms(1)]) (simp_all add: s')
qed

lemma addWatch_wf:
  assumes "wf_client s" and "watchers s p = None" and "addWatch g n p t rs dec s = Inr s'"
  obtains s1 where "Watcher p rs dec t s = Inr s1" and "wf_client s1"
    and "path_rel {} (subscribeOnce t s1) s'" and "wf_client s'"
proof -
  obtain s1 where s1: "Watcher p rs dec t s = Inr s1" "wf_client s1"
    using wf_Watcher [OF assms(1,2)] by blast
  with assms(3) have q: "queueDiscoveryRequest g n t (subscribeOnce t s1) = Inr s'"
    by (simp add: addWatch_def)
  with path.request_path(1) [of "{}" "subscribeOnce t s1" g n t]
    wf_queueDiscoveryRequest [OF wf_subscribeOnce(1) [OF s1(2)] q] s1 that
  show ?thesis by simp
qed

lemma Watcher_remove_wf:
  assumes "wf_client s" and "watchers s p = Some wt"
    and "(if watch_resources wt \<noteq> [] then queueDiscoveryRequest g n (watch_type_url wt) (eraseWatch p wt s)
          else Inr (eraseWatch p wt s)) = Inr s1"
  shows "wf_except {p} s1" and "same_watches (eraseWatch p wt s) s1"
proof -
  have e: "wf_except {p} (eraseWatch p wt s)" by (rule wf_eraseWatch [OF assms(1,2)])
  have "path_rel {p} (eraseWatch p wt s) s1"
    using assms(3) path.request_path(1) [of "{p}" "eraseWatch p wt s" g n "watch_type_url wt"]
    by (auto simp: path.R_refl split: if_splits)
  then show "wf_except {p} s1" "same_watches (eraseWatch p wt s) s1" using path_wf [OF e] by auto
qed

lemma Watcher_update_wf:
  assumes "wf_client s" and "Watcher_update g n p rs s = Inr s'"
  obtains wt s1 s2 where "watchers s p = Some wt" and "wf_except {p} s1"
    and "same_watches (eraseWatch p wt s) s1" and "updateResources p rs s1 = Inr s2"
    and "wf_client s2" and "path_rel {} s2 s'" and "wf_client s'"
proof -
  from assms(2) obtain wt s1 s2 where wt: "watchers s p = Some wt"
    and rm: "(if watch_resources wt \<noteq> [] then queueDiscoveryRequest g n (watch_type_url wt) (eraseWatch p wt s)
      else Inr (eraseWatch p wt s)) = Inr s1"
    and up: "updateResources p rs s1 = Inr s2"
    and q: "queueDiscoveryRequest g n (watch_type_url wt) s2 = Inr s'"
    unfolding Watcher_update_def by (auto simp: bind_res_Inr_iff split: option.splits)
  note w1 = Watcher_remove_wf [OF assms(1) wt rm]
  have "watchers s1 p = Some wt" using w1(2) wt by (simp add: same_watches_def eraseWatch_def)
  from wf_updateResources [OF w1(1) this, of rs] up have w2: "wf_client s2" by simp
  show ?thesis
    using path.request_path(1) [of "{}" s2 g n "watch_type_url wt"] q
    by (intro that [OF wt w1 up w2]) (auto intro: wf_queueDiscoveryRequest [OF w2])
qed

lemma Watcher_destroy_wf:
  assumes "wf_client s" and "Watcher_destroy g n p s = Inr s'"
  obtains wt s1 where "watchers s p = Some wt" and "same_watches (eraseWatch p wt s) s1"
    and "s' = s1\<lparr>watchers := (watchers s1)(p := None)\<rparr>" and "wf_client s'"
proof -
  from assms(2) obtain wt s1 where wt: "watchers s p = Some wt"
    and rm: "(if watch_resources wt \<noteq> [] then queueDiscoveryRequest g n (watch_type_url wt) (eraseWatch p wt s)
      else Inr (eraseWatch p wt s)) = Inr s1"
    and s': "s' = s1\<lparr>watchers := (watchers s1)(p := None)\<rparr>"
    unfolding Watcher_destroy_def by (auto simp: bind_res_Inr_iff split: option.splits)
  note w1 = Watcher_remove_wf [OF assms(1) wt rm]
  show ?thesis by (rule that [OF wt w1(2) s']) (simp add: s' wf_forget [OF w1(1)])
qed

lemma chatLoop_frame:
  "chatLoop g n s = Inr s' \<Longrightarrow> wf_except P s \<Longrightarrow> wf_except P s'"
proof (induction n arbitrary: s)
  case (Suc n)
  obtain r w where rw: "rpc_read g (net s) = (r, w)" by force
  show ?case
  proof (cases r)
    case None
    with Suc.prems rw show ?thesis by (auto simp: wf_logRead)
  next
    case (Some m)
    with Suc.prems(1) rw obtain s1 where s1: "continueChat g ((logRead (Some m) w s)
        \<lparr>version_info := resp_version_info m, nonce := resp_nonce m\<rparr>) = Inr s1" "chatLoop g n s1 = Inr s'"
      by (auto simp: bind_res_Inr_iff)
    have "wf_except P s1"
      by (rule wf_frame [OF Suc.prems(2)]) (use s1(1) in \<open>auto simp: continueChat_def Let_def split: if_splits\<close>)
    with Suc.IH [OF s1(2)] show ?thesis .
  qed
qed simp

lemma wf_continueChat: "continueChat g s = Inr s' \<Longrightarrow> wf_except P s \<Longrightarrow> wf_except P s'"
  by (erule_tac s = s in wf_frame) (auto simp: continueChat_def Let_def split: if_splits)

lemma wf_AggregatedDiscoveryService:
  assumes "AggregatedDiscoveryService g n s = Inr s'" and "wf_except P s"
  shows "wf_except P s'"
  using assms(1) unfolding AggregatedDiscoveryService_def Let_def
  by (auto split: if_splits elim!: chatLoop_frame intro!: wf_frame [OF assms(2)])

lemma wf_shutdown: "shutdown g s = Inr s' \<Longrightarrow> wf_except P s \<Longrightarrow> wf_except P s'"
  by (erule_tac s = s in wf_frame)
    (auto simp: shutdown_def endStream_def bind_res_Inr_iff split: if_splits prod.splits)

section \<open>Reachable states\<close>

inductive client_step :: "'w sync_rpc \<Rightarrow> 'w ads_client \<Rightarrow> 'w ads_client \<Rightarrow> bool" for g where
  channel: "client_step g s (setChannel s)"
| lookup: "client_step g s (snd (apiStateFor t s))"
| established: "onStreamEstablished g n s = Inr s' \<Longrightarrow> client_step g s s'"
| add_watch: "watchers s p = None \<Longrightarrow> addWatch g n p t rs dec s = Inr s' \<Longrightarrow> client_step g s s'"
| update_watch: "Watcher_update g n p rs s = Inr s' \<Longrightarrow> client_step g s s'"
| destroy_watch: "Watcher_destroy g n p s = Inr s' \<Longrightarrow> client_step g s s'"
| queue: "queueDiscoveryRequest g n t s = Inr s' \<Longrightarrow> client_step g s s'"
| response: "onDiscoveryResponse g n m s = Inr s' \<Longrightarrow> client_step g s s'"
| chat: "continueChat g s = Inr s' \<Longrightarrow> client_step g s s'"
| session: "AggregatedDiscoveryService g n s = Inr s' \<Longrightarrow> client_step g s s'"
| stop: "shutdown g s = Inr s' \<Longrightarrow> client_step g s s'"

inductive reachable :: "'w sync_rpc \<Rightarrow> 'w \<Rightarrow> 'w ads_client \<Rightarrow> bool" for g w where
  start: "reachable g w (AdsClient w)"
| step: "reachable g w s \<Longrightarrow> client_step g s s' \<Longrightarrow> reachable g w s'"

lemma client_step_wf: "client_step g s s' \<Longrightarrow> wf_client s \<Longrightarrow> wf_client s'"
proof (induction rule: client_step.induct)
  case (lookup s t)
  then show ?case by (simp add: apiStateFor_eq wf_touch)
next
  case (add_watch s p n t rs dec s')
  then show ?case by (blast elim: addWatch_wf)
next
  case (update_watch n p rs s s')
  then show ?case by (blast elim: Watcher_update_wf)
next
  case (destroy_watch n p s s')
  then show ?case by (blast elim: Watcher_destroy_wf)
qed (blast intro: wf_setChannel wf_onStreamEstablished wf_queueDiscoveryRequest
    wf_onDiscoveryResponse wf_continueChat wf_AggregatedDiscoveryService wf_shutdown)+

lemma reachable_wf: "reachable g w s \<Longrightarrow> wf_client s"
  by (induction rule: reachable.induct) (blast intro: wf_AdsClient client_step_wf)+

end
