(* ===== verification/Request_Templates.thy ===== *)
theory Request_Templates
  imports Client_Operations
begin

text \<open>
  Each type keeps its next request as a template that is patched and sent again. A property
  of one type's state that every patch keeps holds of every request of that type on the
  wire. The locale \<open>template\<close> states that contract for a property \<open>I\<close> of the state and a
  property \<open>W\<close> of the requests; it gives the contract of the request path. Instances: which
  requests carry the node, and which version a watched type reports.
\<close>

definition template_rel ::
    "string \<Rightarrow> (api_state \<Rightarrow> bool) \<Rightarrow> (discovery_request \<Rightarrow> bool) \<Rightarrow> address set \<Rightarrow>
     'w ads_client \<Rightarrow> 'w ads_client \<Rightarrow> bool" where
  "template_rel t I W P s s' \<longleftrightarrow> wf_except P s \<and> I (api_of s t) \<longrightarrow>
    wf_except P s' \<and> I (api_of s' t) \<and>
    (\<exists>es. io_log s' = io_log s @ es \<and> (\<forall>r\<in>set (writes_of es). req_type_url r = t \<longrightarrow> W r))"

lemma template_rel_trans: "transp (template_rel t I W P)"
proof (rule transpI)
  fix x y z :: "'w ads_client"
  assume xy: "template_rel t I W P x y" and yz: "template_rel t I W P y z"
  show "template_rel t I W P x z"
    unfolding template_rel_def
  proof (intro impI)
    assume pre: "wf_except P x \<and> I (api_of x t)"
    with xy obtain es where y: "wf_except P y" "I (api_of y t)" "io_log y = io_log x @ es"
      "\<forall>r\<in>set (writes_of es). req_type_url r = t \<longrightarrow> W r"
      by (auto simp: template_rel_def)
    with yz obtain fs where z: "wf_except P z" "I (api_of z t)" "io_log z = io_log y @ fs"
      "\<forall>r\<in>set (writes_of fs). req_type_url r = t \<longrightarrow> W r"
      by (auto simp: template_rel_def)
    with y show "wf_except P z \<and> I (api_of z t) \<and> (\<exists>es. io_log z = io_log x @ es \<and>
        (\<forall>r\<in>set (writes_of es). req_type_url r = t \<longrightarrow> W r))"
      by (auto intro!: exI [of _ "es @ fs"])
  qed
qed

lemma template_rel_quiet:
  assumes "wf_except P s \<Longrightarrow> wf_except P s'" and "I (api_of s t) \<Longrightarrow> I (api_of s' t)"
    and "io_log s' = io_log s @ es" and "writes_of es = []"
  shows "template_rel t I W P s s'"
  using assms by (force simp: template_rel_def)

locale template =
  fixes t :: string and I :: "api_state \<Rightarrow> bool" and W :: "discovery_request \<Rightarrow> bool"
  assumes named: "t \<noteq> []"
    and I_attach: "I a \<Longrightarrow> I (attach t names fresh a)"
    and I_pending: "I a \<Longrightarrow> I (a\<lparr>pending := True\<rparr>)"
    and I_fetched: "I a \<Longrightarrow> I (a\<lparr>previously_fetched_data := True\<rparr>)"
    and I_error: "I a \<Longrightarrow> I (modifyRequest (\<lambda>r. r\<lparr>req_error_detail := None\<rparr>) a)"
    and I_nonce: "I a \<Longrightarrow> I (modifyRequest (\<lambda>r. r\<lparr>req_response_nonce := x\<rparr>) a)"
    and I_version: "I a \<Longrightarrow> watches a = [] \<Longrightarrow> I (modifyRequest (\<lambda>r. r\<lparr>req_version_info := x\<rparr>) a)"
    and W_request: "I a \<Longrightarrow> W (request a)"
begin

lemma I_record: "I (api_of s t) \<Longrightarrow> I (api_of (recordResponse m s) t)"
  by (auto simp: recordResponse_def Let_def I_nonce I_version I_fetched)

lemma rel_prepare:
  assumes "prepareRequest u s = Inr s1"
  shows "template_rel t I W P s s1"
proof (rule template_rel_quiet [where es = "[]"])
  show "wf_except P s \<Longrightarrow> wf_except P s1" by (rule prepareRequest_wf [OF _ assms])
  show "I (api_of s t) \<Longrightarrow> I (api_of s1 t)"
    using prepareRequest_keeps(1) [OF assms] I_attach
    by (cases "u = t") (simp_all add: api_of_def)
qed (simp_all add: prepareRequest_keeps(3) [OF assms])

lemma rel_transmit:
  assumes "prepareRequest u s = Inr s1"
  shows "template_rel t I W P s1 (final (transmit g u s1))"
proof (cases "stream s1")
  case True
  show ?thesis
    unfolding template_rel_def
  proof (intro impI)
    assume pre: "wf_except P s1 \<and> I (api_of s1 t)"
    obtain s2 where s2: "transmit g u s1 = Inr s2" "wf_except P s2"
      "io_log s2 = io_log s1 @ [Wrote (request (api_of s1 u))]"
      using transmit_wf [OF _ prepareRequest_keeps(8) [OF assms] True, of P g] pre by blast
    have "I (api_of s2 t)"
      using s2(1) True pre by (auto simp: transmit_eq I_error)
    moreover have "W (request (api_of s1 u))" if "req_type_url (request (api_of s1 u)) = t"
      using that wf_api_of [of P s1 u] pre named by (auto simp: wf_api_def W_request)
    ultimately show "wf_except P (final (transmit g u s1)) \<and> I (api_of (final (transmit g u s1)) t) \<and>
        (\<exists>es. io_log (final (transmit g u s1)) = io_log s1 @ es \<and>
          (\<forall>r\<in>set (writes_of es). req_type_url r = t \<longrightarrow> W r))"
      using s2 by simp
  qed
next
  case False
  then show ?thesis by (simp add: transmit_eq template_rel_def)
qed

end

sublocale template \<subseteq> tpath: request_path_rel g "template_rel t I W P" for g P
proof
  fix s s1 :: "'a ads_client" and u q q' r w m
  show "template_rel t I W P s s"
    by (rule template_rel_quiet [where es = "[]"]) simp_all
  show "template_rel t I W P s (touch u s)"
    by (rule template_rel_quiet [where es = "[]"]) (simp_all add: wf_touch)
  show "template_rel t I W P s (modifyApi u (\<lambda>b. b\<lparr>pending := True\<rparr>) s)"
    by (rule template_rel_quiet [where es = "[]"])
      (auto simp: I_pending wf_api_def dest: wf_api_of intro!: wf_modifyApi)
  show "template_rel t I W P s (s\<lparr>request_queue := Some q'\<rparr>)"
    by (rule template_rel_quiet [where es = "[]"]) (auto intro: wf_except_cong)
  show "template_rel t I W P s (final (prepareRequest u s))"
    by (cases "prepareRequest u s")
      (auto simp: rel_prepare prepareRequest_eq wf_touch split: if_splits
        intro!: template_rel_quiet [where es = "[]"])
  show "template_rel t I W P s1 (final (transmit g u s1))" if "prepareRequest u s = Inr s1"
    by (rule rel_transmit [OF that])
  show "template_rel t I W P s (logRead r w s)"
    by (rule template_rel_quiet [where es = "[case r of None \<Rightarrow> ReadEnd | Some m \<Rightarrow> ReadMsg m]"])
      (simp_all add: wf_logRead split: option.split)
  show "template_rel t I W P s (recordResponse m s)"
    by (rule template_rel_quiet [where es = "[]"]) (auto simp: wf_recordResponse I_record)
qed (rule template_rel_trans)

context template
begin

lemmas template_path = tpath.request_path
lemmas template_requeue = tpath.requeue_path

end

section \<open>The node\<close>

text \<open>A type that is subscribed and whose template holds no node: no later patch adds one.\<close>

definition nodeless :: "api_state \<Rightarrow> bool" where
  "nodeless a \<longleftrightarrow> subscribed a \<and> req_node (request a) = None"

lemma nodeless_template: "t \<noteq> [] \<Longrightarrow> template t nodeless (\<lambda>r. req_node r = None)"
  by unfold_locales (auto simp: nodeless_def attach_def Let_def modifyRequest_def)

section \<open>The version\<close>

definition watched_at :: "string \<Rightarrow> api_state \<Rightarrow> bool" where
  "watched_at v a \<longleftrightarrow> watches a \<noteq> [] \<and> req_version_info (request a) = v"

lemma watched_template: "t \<noteq> [] \<Longrightarrow> template t (watched_at v) (\<lambda>r. req_version_info r = v)"
  by unfold_locales (auto simp: watched_at_def)

interpretation cds_node: template cluster_type_url nodeless "\<lambda>r. req_node r = None"
  by (rule nodeless_template) (simp add: cluster_type_url_def)

interpretation cds_version: template cluster_type_url "watched_at v" "\<lambda>r. req_version_info r = v" for v
  by (rule watched_template) (simp add: cluster_type_url_def)

lemmas nodeless_path = template.template_path [OF nodeless_template]
  and nodeless_requeue = template.template_requeue [OF nodeless_template]
  and watched_path = template.template_path [OF watched_template]
  and watched_requeue = template.template_requeue [OF watched_template]

end
