(* ===== verification/Watch_View.thy ===== *)
theory Watch_View
  imports Client_Operations
begin

text \<open>
  The abstract specification of the watches: a map from live watchers to the type and the
  set of resources they ask for. The C++ operations change it one entry at a time:
  the view of the client after \<^verbatim>\<open>addWatch\<close>, \<^verbatim>\<open>Watcher::update\<close> and \<^verbatim>\<open>~Watcher\<close> is the view before
  with one entry changed, whatever the server answered meanwhile, and no other operation
  changes it.
\<close>

type_synonym view = "address \<rightharpoonup> string \<times> string set"

definition watch_view :: "'w ads_client \<Rightarrow> view" where
  "watch_view s p = map_option (\<lambda>wt. (watch_type_url wt, set (watch_resources wt))) (watchers s p)"

definition interest :: "view \<Rightarrow> string \<Rightarrow> string set" where
  "interest v t = {r. \<exists>p R. v p = Some (t, R) \<and> r \<in> R}"

lemma watch_view_cong: "watchers s' = watchers s \<Longrightarrow> watch_view s' = watch_view s"
  by (simp add: watch_view_def fun_eq_iff)

lemma watch_view_same: "same_watches s s' \<Longrightarrow> watch_view s' = watch_view s"
  by (rule watch_view_cong) (simp add: same_watches_def)

text \<open>A request of a type asks for the resources of the watchers that are on their lists.\<close>

lemma names_for_listed:
  assumes "wf_except P s"
  shows "set (names_for s t) = interest (watch_view s |` (- P)) t" and "distinct (names_for s t)"
proof -
  have member: "p \<in> set (watches (api_of s t)) \<longleftrightarrow> p \<notin> P \<and> (\<exists>wt. watchers s p = Some wt \<and> watch_type_url wt = t)" for p
    using wf_list_member [OF assms, of p t] wf_store(2) [OF assms, of p] by auto
  have names: "r \<in> set (names_for s t) \<longleftrightarrow>
      (\<exists>p wt. p \<notin> P \<and> watchers s p = Some wt \<and> watch_type_url wt = t \<and> r \<in> set (watch_resources wt))" for r
  proof -
    have "r \<in> set (names_for s t) \<longleftrightarrow>
        (\<exists>p. p \<in> set (watches (api_of s t)) \<and> r \<in> set (watch_resources (the (watchers s p))))"
      by (auto simp: names_for_def watched_names_def)
    also have "\<dots> \<longleftrightarrow> (\<exists>p wt. p \<notin> P \<and> watchers s p = Some wt \<and> watch_type_url wt = t \<and> r \<in> set (watch_resources wt))"
      unfolding member by auto
    finally show ?thesis .
  qed
  have "r \<in> interest (watch_view s |` (- P)) t \<longleftrightarrow>
      (\<exists>p wt. p \<notin> P \<and> watchers s p = Some wt \<and> watch_type_url wt = t \<and> r \<in> set (watch_resources wt))" for r
    by (auto simp: interest_def watch_view_def restrict_map_def split: if_splits)
  with names show "set (names_for s t) = interest (watch_view s |` (- P)) t" by blast
  show "distinct (names_for s t)" by (simp add: names_for_def)
qed

lemma names_for_interest:
  assumes "wf_client s"
  shows "set (names_for s t) = interest (watch_view s) t" and "distinct (names_for s t)"
  using names_for_listed [OF assms, of t] by (simp_all add: restrict_map_def)

lemma Watcher_view:
  "Watcher p rs dec t s = Inr s' \<Longrightarrow> watch_view s' = (watch_view s)(p \<mapsto> (t, set rs))"
  by (auto simp: Watcher_def updateResources_def apiStateFor_eq watch_view_def fun_eq_iff)

lemma updateResources_view:
  "updateResources p rs s = Inr s' \<Longrightarrow> watchers s p = Some wt \<Longrightarrow>
   watch_view s' = (watch_view s)(p \<mapsto> (watch_type_url wt, set rs))"
  by (auto simp: updateResources_def watch_view_def fun_eq_iff)

lemma addWatch_view:
  assumes "wf_client s" and "watchers s p = None" and "addWatch g n p t rs dec s = Inr s'"
  shows "watch_view s' = (watch_view s)(p \<mapsto> (t, set rs))"
proof -
  obtain s1 where s1: "Watcher p rs dec t s = Inr s1" "wf_client s1"
    "path_rel {} (subscribeOnce t s1) s'"
    by (rule addWatch_wf [OF assms])
  have "same_watches (subscribeOnce t s1) s'"
    by (rule path_wf(2) [OF wf_subscribeOnce(1) [OF s1(2)] s1(3)])
  with wf_subscribeOnce(2) [OF s1(2), of t] have "same_watches s1 s'"
    by (rule same_watches_trans)
  with Watcher_view [OF s1(1)] show ?thesis by (simp add: watch_view_same [of s1 s'])
qed

lemma Watcher_update_view:
  assumes "wf_client s" and "Watcher_update g n p rs s = Inr s'"
  shows "\<exists>t R. watch_view s p = Some (t, R) \<and> watch_view s' = (watch_view s)(p \<mapsto> (t, set rs))"
proof -
  obtain wt s1 s2 where u: "watchers s p = Some wt" "same_watches (eraseWatch p wt s) s1"
    "updateResources p rs s1 = Inr s2" "wf_client s2" "path_rel {} s2 s'"
    by (rule Watcher_update_wf [OF assms])
  have "watchers s1 = watchers s" using u(2) by (simp add: same_watches_def eraseWatch_def)
  with u(1) updateResources_view [OF u(3), of wt] have
    "watch_view s2 = (watch_view s)(p \<mapsto> (watch_type_url wt, set rs))"
    by (simp add: watch_view_cong [of s1 s])
  moreover have "watch_view s' = watch_view s2" by (rule watch_view_same [OF path_wf(2) [OF u(4,5)]])
  moreover have "watch_view s p = Some (watch_type_url wt, set (watch_resources wt))"
    by (simp add: watch_view_def u(1))
  ultimately show ?thesis by (intro exI [of _ "watch_type_url wt"] exI conjI) simp_all
qed

lemma Watcher_destroy_view:
  assumes "wf_client s" and "Watcher_destroy g n p s = Inr s'"
  shows "\<exists>t R. watch_view s p = Some (t, R) \<and> watch_view s' = (watch_view s)(p := None)"
proof -
  obtain wt s1 where d: "watchers s p = Some wt" "same_watches (eraseWatch p wt s) s1"
    "s' = s1\<lparr>watchers := (watchers s1)(p := None)\<rparr>"
    by (rule Watcher_destroy_wf [OF assms])
  then show ?thesis
    by (auto simp: watch_view_def fun_eq_iff same_watches_def eraseWatch_def)
qed

lemma chatLoop_watchers: "chatLoop g n s = Inr s' \<Longrightarrow> watchers s' = watchers s"
proof (induction n arbitrary: s)
  case (Suc n)
  then show ?case
    by (auto simp: bind_res_Inr_iff continueChat_def Let_def
        split: prod.splits option.splits if_splits)
qed simp

lemma session_watchers:
  "continueChat g s = Inr s' \<Longrightarrow> watchers s' = watchers s"
  "AggregatedDiscoveryService g n s = Inr s' \<Longrightarrow> watchers s' = watchers s"
  "shutdown g s = Inr s' \<Longrightarrow> watchers s' = watchers s"
  by (auto simp: continueChat_def AggregatedDiscoveryService_def Let_def shutdown_def endStream_def
      bind_res_Inr_iff dest!: chatLoop_watchers split: if_splits prod.splits)

lemma established_watchers:
  assumes "wf_client s" and "onStreamEstablished g n s = Inr s'"
  shows "watchers s' = watchers s"
proof (cases "fst (rpc_open g (net s))")
  case True
  with assms(2) have "requeueFrom g n 0 (established (snd (rpc_open g (net s))) s) = Inr s'"
    by (auto simp: onStreamEstablished_eq split: if_splits)
  with path.requeue_path [of "{}" "established (snd (rpc_open g (net s))) s" g n 0]
  have "same_watches (established (snd (rpc_open g (net s))) s) s'"
    using path_wf(2) [OF wf_established [OF assms(1)]] by simp
  then show ?thesis by (simp add: same_watches_def)
next
  case False
  with assms(2) show ?thesis by (auto simp: onStreamEstablished_eq split: if_splits)
qed

lemma path_watchers:
  "wf_client s \<Longrightarrow> queueDiscoveryRequest g n t s = Inr s' \<Longrightarrow> watchers s' = watchers s"
  "wf_client s \<Longrightarrow> onDiscoveryResponse g n m s = Inr s' \<Longrightarrow> watchers s' = watchers s"
  using path.request_path(1) [of "{}" s g n t] path.request_path(5) [of "{}" s g n m]
    path_wf(2) [of "{}" s s'] by (auto simp: same_watches_def)

end
