(* ===== verification/Ads_Session.thy ===== *)
theory Ads_Session
  imports Request_Templates Watch_View
begin

text \<open>
  Whole sessions: the program \<^verbatim>\<open>main\<close> of \<^verbatim>\<open>ads_protocol_client\<close> against a server that ends its
  stream, the chat session, and the client after its shutdown.
\<close>

section \<open>A client without watches\<close>

text \<open>
  The client \<^verbatim>\<open>main\<close> runs: only the cluster type has a state and nothing is watched. A message
  is then quiet unless it is a cluster response that brings resources.
\<close>

definition cds_quiet :: "discovery_response \<Rightarrow> bool" where
  "cds_quiet m \<longleftrightarrow> (resp_type_url m = cluster_type_url \<longrightarrow> resp_resources m = [])"

definition plain :: "'w ads_client \<Rightarrow> bool" where
  "plain s \<longleftrightarrow> live {} s \<and> request_queue s = Some [] \<and> \<not> shutdown_flag s \<and>
     dom (api_states s) \<subseteq> {cluster_type_url} \<and> (\<forall>t. watches (api_of s t) = [])"

lemma plain_quiet: "plain s \<Longrightarrow> quiet (touch cluster_type_url s) m = cds_quiet m"
  by (auto simp: plain_def quiet_def wants_request_def cds_quiet_def domIff)

lemma plain_sent:
  assumes "plain s" and "settled (sent g cluster_type_url (queued_alone cluster_type_url s))
      (s'\<lparr>request_queue := Some [cluster_type_url]\<rparr>)"
    and "wf_client s'" and "request_queue s' = Some []"
  shows "plain s'" and "\<not> first_stream_request s'"
    and "subscriptions s' = subscriptions s @
      (if first_stream_request s \<and> \<not> subscribed (api_of s cluster_type_url) then [cluster_type_url] else [])"
    and "subscribed (api_of s' cluster_type_url) \<longleftrightarrow>
      subscribed (api_of s cluster_type_url) \<or> first_stream_request s"
proof -
  have mn: "\<not> must_send_node (api_of s cluster_type_url)"
    using assms(1) wf_api_of [of "{}" s cluster_type_url] by (simp add: plain_def live_def wf_api_def)
  show "plain s'" "\<not> first_stream_request s'"
    using assms by (auto simp: settled_def same_watches_def plain_def live_def)
  have "subscriptions s' = subscriptions (sent g cluster_type_url (queued_alone cluster_type_url s))"
    using assms(2) by (simp add: settled_def)
  also have "\<dots> = subscriptions s @
      (if first_stream_request s \<and> \<not> subscribed (api_of s cluster_type_url) then [cluster_type_url] else [])"
    by (simp add: sent_def mn)
  finally show "subscriptions s' = subscriptions s @
      (if first_stream_request s \<and> \<not> subscribed (api_of s cluster_type_url) then [cluster_type_url] else [])" .
  have "subscribed (api_of s' cluster_type_url) =
      subscribed (attach cluster_type_url (names_for (queued_alone cluster_type_url s) cluster_type_url)
        (first_stream_request s) (api_of s cluster_type_url))"
    using assms(2) by (simp add: settled_def)
  then show "subscribed (api_of s' cluster_type_url) \<longleftrightarrow>
      subscribed (api_of s cluster_type_url) \<or> first_stream_request s"
    using mn by (simp add: attach_def Let_def)
qed

text \<open>The outcome of one queued cluster request.\<close>

lemma plain_queue:
  assumes "plain s" and "\<not> ran_out (queueDiscoveryRequest g n cluster_type_url s)"
  obtains
    (returns) ms s' where "queueDiscoveryRequest g n cluster_type_url s = Inr s'"
      and "\<forall>m\<in>set ms. cds_quiet m"
      and "io_log s' = io_log s @ Wrote (next_request s cluster_type_url) # map ReadMsg ms @ [ReadEnd]"
      and "plain s'" and "\<not> first_stream_request s'"
      and "subscriptions s' = subscriptions s @
        (if first_stream_request s \<and> \<not> subscribed (api_of s cluster_type_url) then [cluster_type_url] else [])"
      and "subscribed (api_of s' cluster_type_url) \<longleftrightarrow>
        subscribed (api_of s cluster_type_url) \<or> first_stream_request s"
  | (faults) es x s' where "queueDiscoveryRequest g n cluster_type_url s = Inl (PopEmptyQueue, s')"
      and "io_log s' = io_log s @ Wrote (next_request s cluster_type_url) # es"
      and "x \<in> set (reads_of es)" and "\<not> cds_quiet x"
proof -
  let ?c = cluster_type_url
  have l: "live {} s" and idle: "request_queue s = Some []" and up: "\<not> shutdown_flag s"
    using assms(1) by (auto simp: plain_def)
  have nr: "next_request (touch ?c s) ?c = next_request s ?c"
    by (simp add: next_request_def names_for_def)
  obtain es where log: "io_log (final (queueDiscoveryRequest g n ?c s)) =
      io_log s @ Wrote (next_request s ?c) # es"
    and out: "if \<forall>m\<in>set (reads_of es). cds_quiet m
     then \<exists>s'. queueDiscoveryRequest g n ?c s = Inr s' \<and> es = map ReadMsg (reads_of es) @ [ReadEnd] \<and>
       request_queue s' = Some [] \<and>
       settled (sent g ?c (queued_alone ?c s)) (s'\<lparr>request_queue := Some [?c]\<rparr>)
     else \<exists>s'. queueDiscoveryRequest g n ?c s = Inl (PopEmptyQueue, s')"
    using idle_queue_outcome [OF l idle up assms(2)] unfolding plain_quiet [OF assms(1)] nr by blast
  show ?thesis
  proof (cases "\<forall>m\<in>set (reads_of es). cds_quiet m")
    case True
    then obtain s' where s': "queueDiscoveryRequest g n ?c s = Inr s'"
      "es = map ReadMsg (reads_of es) @ [ReadEnd]" "request_queue s' = Some []"
      "settled (sent g ?c (queued_alone ?c s)) (s'\<lparr>request_queue := Some [?c]\<rparr>)"
      using out by auto
    have "wf_client s'"
      by (rule wf_queueDiscoveryRequest [OF _ s'(1)]) (use l in \<open>simp add: live_def\<close>)
    from plain_sent [OF assms(1) s'(4) this s'(3)] True log s'(1,2) show ?thesis
      by (intro returns [of s' "reads_of es"]) simp_all
  next
    case False
    then obtain s' x where "queueDiscoveryRequest g n ?c s = Inl (PopEmptyQueue, s')"
      "x \<in> set (reads_of es)" "\<not> cds_quiet x"
      using out unfolding if_not_P [OF False] by blast
    with log show ?thesis by (intro faults [of s' es x]) simp_all
  qed
qed

section \<open>The program\<close>

definition start_state :: "'w \<Rightarrow> 'w \<Rightarrow> 'w ads_client" where
  "start_state w w' = established w' (setChannel (AdsClient w))"

lemma api_of_start [simp]:
  "api_of (start_state w w') t = modifyRequest (\<lambda>r. r\<lparr>req_response_nonce := []\<rparr>) new_api_state"
proof -
  have "api_of (setChannel (AdsClient w)) t = new_api_state"
    by (simp add: setChannel_def AdsClient_def api_of_def)
  then show ?thesis by (simp add: start_state_def)
qed

lemma start_state_facts:
  "plain (start_state w w')" "subscriptions (start_state w w') = [cluster_type_url]"
  "first_stream_request (start_state w w')" "net (start_state w w') = w'"
  "\<not> subscribed (api_of (start_state w w') cluster_type_url)"
  "io_log (start_state w w') = [Opened True]"
proof -
  have "wf_client (start_state w w')"
    unfolding start_state_def by (intro wf_established wf_setChannel wf_AdsClient)
  then show "plain (start_state w w')"
    by (simp add: plain_def live_def)
      (auto simp: start_state_def setChannel_def AdsClient_def established_def clearNonce_def)
qed (simp_all, simp_all add: start_state_def setChannel_def AdsClient_def)

definition first_request :: discovery_request where
  "first_request = empty_request\<lparr>req_type_url := cluster_type_url, req_node := Some ads_node\<rparr>"

lemma first_request: "next_request (start_state w w') cluster_type_url = first_request"
  by (simp add: next_request_def start_state_facts(3) attach_def Let_def modifyRequest_def names_for_def
      watched_names_def dedup_def first_request_def empty_request_def new_api_state_def)

lemma main_ads_eq:
  "rpc_open g w = (True, w') \<Longrightarrow>
   main_ads g n w = bind_res (requeueFrom g n 0 (start_state w w')) (shutdown g)"
  by (simp add: main_ads_def build_def Let_def onStreamEstablished_eq start_state_def setChannel_def AdsClient_def)

lemma shutdown_eq:
  "stream s \<Longrightarrow> \<exists>ok w. shutdown g s = Inr (s\<lparr>net := w, io_log := io_log s @ [DoneWriting, Finished ok],
     shutdown_flag := True\<rparr>)"
  by (cases "rpc_finish g (snd (rpc_writes_done g (net s)))")
    (auto simp: shutdown_def endStream_def)

lemma fuel_enough_plain:
  assumes "finite_stream g m" and "plain s" and "6 * m (net s) + 5 \<le> n"
  shows "\<not> ran_out (queueDiscoveryRequest g n t s)"
  by (rule enough_fuel(1) [OF assms(1)])
    (use assms(2,3) in \<open>simp add: plain_def fuel_bound_def queue_length_def\<close>)

text \<open>A request queued again after its type is subscribed carries the type and no node.\<close>

lemma plain_next_request:
  assumes "plain s" and "\<not> first_stream_request s" and "subscribed (api_of s cluster_type_url)"
  shows "req_type_url (next_request s cluster_type_url) = cluster_type_url"
    and "req_node (next_request s cluster_type_url) = None"
proof -
  have "wf_api s cluster_type_url (api_of s cluster_type_url)"
    using assms(1) wf_api_of by (auto simp: plain_def live_def)
  then show "req_type_url (next_request s cluster_type_url) = cluster_type_url"
    "req_node (next_request s cluster_type_url) = None"
    using assms(2,3) by (auto simp: next_request_def attach_def Let_def wf_api_def)
qed

text \<open>
  The rounds of the range-for: the first request appends its own type to the list, so the
  loop comes round a second time, for the same type.
\<close>

lemma main_rounds:
  assumes "rpc_open g w = (True, w')"
  shows "main_ads g (Suc (Suc (Suc k))) w =
    bind_res (queueDiscoveryRequest g (Suc (Suc k)) cluster_type_url (start_state w w'))
      (\<lambda>s1. bind_res (requeueFrom g (Suc (Suc k)) 1 s1) (shutdown g))"
  using main_ads_eq [OF assms, of "Suc (Suc (Suc k))"]
  by (simp add: start_state_facts(2) bind_res_assoc)

lemma second_round:
  assumes "subscriptions s1 = [cluster_type_url, cluster_type_url]"
    and "\<And>s2. queueDiscoveryRequest g (Suc k) cluster_type_url s1 = Inr s2 \<Longrightarrow>
      length (subscriptions s2) = 2"
  shows "requeueFrom g (Suc (Suc k)) 1 s1 = queueDiscoveryRequest g (Suc k) cluster_type_url s1"
  using assms by (cases "queueDiscoveryRequest g (Suc k) cluster_type_url s1") auto

lemma main_tail:
  assumes fin: "finite_stream g m" and s1: "plain s1" "\<not> first_stream_request s1"
    and subs: "subscriptions s1 = [cluster_type_url, cluster_type_url]"
    and sd: "subscribed (api_of s1 cluster_type_url)" and k: "6 * m (net s1) + 5 \<le> Suc k"
  obtains
    (returns) q ms ok s' where "bind_res (requeueFrom g (Suc (Suc k)) 1 s1) (shutdown g) = Inr s'"
      and "shutdown_flag s'" and "\<forall>x\<in>set ms. cds_quiet x"
      and "req_type_url q = cluster_type_url" and "req_node q = None"
      and "io_log s' = io_log s1 @ Wrote q # map ReadMsg ms @ [ReadEnd, DoneWriting, Finished ok]"
  | (faults) es x s' where "bind_res (requeueFrom g (Suc (Suc k)) 1 s1) (shutdown g) = Inl (PopEmptyQueue, s')"
      and "io_log s' = io_log s1 @ es" and "x \<in> set (reads_of es)" and "\<not> cds_quiet x"
proof (rule plain_queue [OF s1(1) fuel_enough_plain [OF fin s1(1) k]])
  let ?c = cluster_type_url
  fix es x s'
  assume "queueDiscoveryRequest g (Suc k) ?c s1 = Inl (PopEmptyQueue, s')"
    and "io_log s' = io_log s1 @ Wrote (next_request s1 ?c) # es" "x \<in> set (reads_of es)" "\<not> cds_quiet x"
  then show thesis
    using second_round [OF subs, of g k]
    by (intro faults [of s' "Wrote (next_request s1 ?c) # es" x]) simp_all
next
  let ?c = cluster_type_url
  fix ms s2
  assume q2: "queueDiscoveryRequest g (Suc k) ?c s1 = Inr s2" "\<forall>m\<in>set ms. cds_quiet m"
    and log2: "io_log s2 = io_log s1 @ Wrote (next_request s1 ?c) # map ReadMsg ms @ [ReadEnd]"
    and s2: "plain s2"
    and sub2: "subscriptions s2 = subscriptions s1 @
      (if first_stream_request s1 \<and> \<not> subscribed (api_of s1 ?c) then [?c] else [])"
  obtain ok v where "shutdown g s2 = Inr (s2\<lparr>net := v, io_log := io_log s2 @ [DoneWriting, Finished ok],
      shutdown_flag := True\<rparr>)"
    using shutdown_eq [of s2 g] s2 by (auto simp: plain_def live_def)
  moreover have "requeueFrom g (Suc (Suc k)) 1 s1 = Inr s2"
    using second_round [OF subs, of g k] q2(1) sub2 subs s1(2) by simp
  ultimately show thesis
    using q2(2) log2 plain_next_request [OF s1 sd]
    by (intro returns [of "s2\<lparr>net := v, io_log := io_log s2 @ [DoneWriting, Finished ok],
        shutdown_flag := True\<rparr>" ms "next_request s1 ?c" ok]) simp_all
qed

lemma queue_within:
  "finite_stream g m \<Longrightarrow> queueDiscoveryRequest g n t s = Inr s' \<Longrightarrow> m (net s') \<le> m (net s)"
  using request_path_rel.request_path(1) [OF request_path_within, of g m s n t] by (simp add: within_def)

lemma main_outcome:
  assumes fin: "finite_stream g m" and open_ok: "rpc_open g w = (True, w')" and n: "6 * m w' + 7 \<le> n"
  obtains
    (returns) ms q ms' ok s' where "main_ads g n w = Inr s'" and "shutdown_flag s'"
      and "\<forall>x\<in>set (ms @ ms'). cds_quiet x" and "req_type_url q = cluster_type_url" and "req_node q = None"
      and "io_log s' = [Opened True, Wrote first_request] @ map ReadMsg ms @ [ReadEnd, Wrote q] @
        map ReadMsg ms' @ [ReadEnd, DoneWriting, Finished ok]"
  | (faults) es x s' where "main_ads g n w = Inl (PopEmptyQueue, s')"
      and "io_log s' = Opened True # Wrote first_request # es"
      and "x \<in> set (reads_of es)" and "\<not> cds_quiet x"
proof -
  let ?c = cluster_type_url and ?s = "start_state w w'"
  obtain k where k: "n = Suc (Suc (Suc k))"
    using n le_Suc_ex [of 3 n] by (auto simp: numeral_3_eq_3)
  note main = main_rounds [OF open_ok, of k, folded k]
  have fuel: "\<not> ran_out (queueDiscoveryRequest g (Suc (Suc k)) ?c ?s)"
    by (rule fuel_enough_plain [OF fin start_state_facts(1)]) (use n k in \<open>simp add: start_state_facts(4)\<close>)
  show ?thesis
  proof (rule plain_queue [OF start_state_facts(1) fuel])
    fix es x s'
    assume "queueDiscoveryRequest g (Suc (Suc k)) ?c ?s = Inl (PopEmptyQueue, s')"
      and "io_log s' = io_log ?s @ Wrote (next_request ?s ?c) # es" "x \<in> set (reads_of es)" "\<not> cds_quiet x"
    then show thesis by (intro faults [of s' es x]) (simp_all add: main start_state_facts(6) first_request)
  next
    fix ms s1
    assume q1: "queueDiscoveryRequest g (Suc (Suc k)) ?c ?s = Inr s1" "\<forall>m\<in>set ms. cds_quiet m"
      and log1: "io_log s1 = io_log ?s @ Wrote (next_request ?s ?c) # map ReadMsg ms @ [ReadEnd]"
      and s1: "plain s1" "\<not> first_stream_request s1"
      and sub1: "subscriptions s1 = subscriptions ?s @
        (if first_stream_request ?s \<and> \<not> subscribed (api_of ?s ?c) then [?c] else [])"
      and subd: "subscribed (api_of s1 ?c) \<longleftrightarrow> subscribed (api_of ?s ?c) \<or> first_stream_request ?s"
    have k1: "6 * m (net s1) + 5 \<le> Suc k"
      using queue_within [OF fin q1(1)] n k by (simp add: start_state_facts(4))
    have subs: "subscriptions s1 = [?c, ?c]" and sd: "subscribed (api_of s1 ?c)"
      using sub1 subd by (simp_all add: start_state_facts)
    show thesis
    proof (rule main_tail [OF fin s1 subs sd k1])
      fix q ms' ok s'
      assume "bind_res (requeueFrom g (Suc (Suc k)) 1 s1) (shutdown g) = Inr s'" "shutdown_flag s'"
        "\<forall>x\<in>set ms'. cds_quiet x" "req_type_url q = ?c" "req_node q = None"
        "io_log s' = io_log s1 @ Wrote q # map ReadMsg ms' @ [ReadEnd, DoneWriting, Finished ok]"
      with q1 log1 show thesis
        by (intro returns [of s' ms ms' q ok]) (auto simp: main start_state_facts(6) first_request)
    next
      fix es x s'
      assume "bind_res (requeueFrom g (Suc (Suc k)) 1 s1) (shutdown g) = Inl (PopEmptyQueue, s')"
        "io_log s' = io_log s1 @ es" "x \<in> set (reads_of es)" "\<not> cds_quiet x"
      with q1 log1 show thesis
        by (intro faults [of s' "map ReadMsg ms @ ReadEnd # es" x])
          (auto simp: main start_state_facts(6) first_request)
    qed
  qed
qed

end
