(* ===== verification/Chat_Session.thy ===== *)
theory Chat_Session
  imports Ads_Session
begin

text \<open>
  The chat session \<^verbatim>\<open>AdsClient::AggregatedDiscoveryService\<close>, which answers every response at once
  with its version and nonce, and the client after its shutdown, which drains its queue
  without touching the stream.
\<close>

section \<open>Acknowledgements\<close>

text \<open>The answer to a response: the session's request with the response's version and nonce.\<close>

definition chat_ack :: "discovery_request \<Rightarrow> discovery_response \<Rightarrow> discovery_request" where
  "chat_ack q m = q\<lparr>req_version_info := resp_version_info m, req_response_nonce := resp_nonce m\<rparr>"

definition chat_turns :: "discovery_request \<Rightarrow> discovery_response list \<Rightarrow> io_event list" where
  "chat_turns q ms = concat (map (\<lambda>m. [ReadMsg m, Wrote (chat_ack q m)]) ms)"

definition chat_request :: "'w ads_client \<Rightarrow> discovery_request" where
  "chat_request s = (let r = discoveryRequest s; nd = mutable_node r in
     r\<lparr>req_version_info := [], req_node := Some (nd\<lparr>node_cluster := node_cluster nd @ ''test-cluster'',
         node_id := node_id nd @ ''test-id''\<rparr>), req_type_url := cluster_type_url\<rparr>)"

text \<open>The request a session leaves behind: the answer to its last response.\<close>

definition chat_left :: "discovery_request \<Rightarrow> discovery_response list \<Rightarrow> discovery_request" where
  "chat_left q ms = (if ms = [] then q else chat_ack q (last ms))"

lemma chat_ack_ack [simp]: "chat_ack (chat_ack q m) m' = chat_ack q m'"
  by (simp add: chat_ack_def)

lemma chat_turns_ack [simp]: "chat_turns (chat_ack q m) ms = chat_turns q ms"
  by (simp add: chat_turns_def)

lemma chat_turns_simps [simp]:
  "chat_turns q [] = []"
  "chat_turns q (m # ms) = ReadMsg m # Wrote (chat_ack q m) # chat_turns q ms"
  by (simp_all add: chat_turns_def)

lemma reads_of_turns [simp]: "reads_of (chat_turns q ms) = ms"
  by (induction ms) simp_all

lemma writes_of_turns [simp]: "writes_of (chat_turns q ms) = map (chat_ack q) ms"
  by (induction ms) simp_all

lemma continueChat_eq:
  assumes "stream s"
  shows "continueChat g (s\<lparr>version_info := resp_version_info m, nonce := resp_nonce m\<rparr>) =
    Inr (s\<lparr>version_info := resp_version_info m, nonce := resp_nonce m,
      discoveryRequest := chat_ack (discoveryRequest s) m,
      net := snd (rpc_write g (chat_ack (discoveryRequest s) m) (net s)),
      io_log := io_log s @ [Wrote (chat_ack (discoveryRequest s) m)], isOk := True\<rparr>)"
  using assms by (simp add: continueChat_def chat_ack_def Let_def)

lemma chatLoop_log:
  assumes "finite_stream g m" and "stream s" and "m (net s) < n"
  shows "\<exists>ms s'. chatLoop g n s = Inr s' \<and>
    io_log s' = io_log s @ chat_turns (discoveryRequest s) ms @ [ReadEnd] \<and>
    isOk s' = (isOk s \<or> ms \<noteq> []) \<and>
    discoveryRequest s' = chat_left (discoveryRequest s) ms"
  using assms(2,3)
proof (induction n arbitrary: s)
  case (Suc n)
  obtain r w where rw: "rpc_read g (net s) = (r, w)" by force
  show ?case
  proof (cases r)
    case None
    with rw show ?thesis by (intro exI [of _ "[]"]) (simp add: logRead_def chat_left_def)
  next
    case (Some x)
    let ?q = "chat_ack (discoveryRequest s) x"
    let ?s1 = "(logRead (Some x) w s)\<lparr>version_info := resp_version_info x, nonce := resp_nonce x,
      discoveryRequest := ?q, net := snd (rpc_write g ?q w),
      io_log := io_log s @ [ReadMsg x, Wrote ?q], isOk := True\<rparr>"
    have loop: "chatLoop g (Suc n) s = chatLoop g n ?s1"
      using rw Some continueChat_eq [of "logRead (Some x) w s" g x] Suc.prems(1)
      by (simp add: logRead_def)
    have "m (net ?s1) < n"
      using finite_stream_read [OF assms(1), of "net s" x w] rw Some Suc.prems(2)
        finite_stream_write [OF assms(1), of ?q w] by simp
    with Suc.IH [of ?s1] Suc.prems(1) obtain ms s' where "chatLoop g n ?s1 = Inr s'"
      "io_log s' = io_log ?s1 @ chat_turns ?q ms @ [ReadEnd]" "isOk s'"
      "discoveryRequest s' = chat_left ?q ms"
      by auto
    then show ?thesis unfolding loop by (intro exI [of _ "x # ms"] exI [of _ s']) (simp add: chat_left_def)
  qed
qed simp

lemma chat_session:
  assumes "finite_stream g m" and "stream s" and "m (net s) < n"
  shows "\<exists>ms s'. AggregatedDiscoveryService g n s = Inr s' \<and>
    io_log s' = io_log s @ Wrote (chat_request s) # chat_turns (chat_request s) ms @ [ReadEnd] \<and>
    isOk s' = (isOk s \<or> ms \<noteq> []) \<and>
    discoveryRequest s' = chat_left (chat_request s) ms"
proof -
  let ?s1 = "s\<lparr>discoveryRequest := chat_request s, net := snd (rpc_write g (chat_request s) (net s)),
    io_log := io_log s @ [Wrote (chat_request s)]\<rparr>"
  have eq: "AggregatedDiscoveryService g n s = chatLoop g n ?s1"
    using assms(2) by (simp add: AggregatedDiscoveryService_def chat_request_def Let_def)
  have "m (net ?s1) < n"
    using finite_stream_write [OF assms(1), of "chat_request s" "net s"] assms(3) by simp
  with chatLoop_log [OF assms(1), of ?s1 n] assms(2) show ?thesis unfolding eq by simp
qed

text \<open>
  The opening request of the next session on the same client: the node's names have grown
  once more, and the nonce is still that of the last response.
\<close>

lemma chat_again:
  assumes "discoveryRequest s' = chat_left (chat_request s) ms"
  shows "node_id (mutable_node (chat_request s')) = node_id (mutable_node (chat_request s)) @ ''test-id''"
    and "node_cluster (mutable_node (chat_request s')) = node_cluster (mutable_node (chat_request s)) @ ''test-cluster''"
    and "req_version_info (chat_request s') = []"
    and "req_response_nonce (chat_request s') =
      (if ms = [] then req_response_nonce (chat_request s) else resp_nonce (last ms))"
  by (simp_all add: chat_request_def [of s'] assms chat_left_def chat_ack_def Let_def mutable_node_def)

section \<open>After the shutdown\<close>

lemma drain_silent:
  "shutdown_flag s \<Longrightarrow> request_queue s = Some q \<Longrightarrow> length q + 2 \<le> n \<Longrightarrow>
   drainRequests g n s = Inr (s\<lparr>request_queue := Some []\<rparr>)"
proof (induction q arbitrary: n s)
  case Nil
  then obtain k where "n = Suc k" by (cases n) auto
  with Nil show ?case by simp
next
  case (Cons t q)
  then obtain k where n: "n = Suc (Suc k)" by (metis add_2_eq_Suc' le_Suc_ex add.commute add.left_commute)
  have "drainRequests g (Suc k) (s\<lparr>request_queue := Some q\<rparr>) =
      Inr (s\<lparr>request_queue := Some q, request_queue := Some []\<rparr>)"
    by (rule Cons.IH) (use Cons.prems n in simp_all)
  with Cons.prems n show ?case by (simp add: popQueue_def)
qed

lemma queue_silent:
  assumes "shutdown_flag s" and "stream s" and "request_queue s = Some q"
    and "\<not> paused (api_of s t)" and "length q + 4 \<le> n"
  shows "queueDiscoveryRequest g n t s = Inr ((touch t s)\<lparr>request_queue := Some []\<rparr>)"
proof -
  obtain k where n: "n = Suc k" using assms(5) by (cases n) auto
  have "drainRequests g k ((touch t s)\<lparr>request_queue := Some (q @ [t])\<rparr>) =
      Inr ((touch t s)\<lparr>request_queue := Some (q @ [t]), request_queue := Some []\<rparr>)"
    by (rule drain_silent [where q = "q @ [t]"]) (use assms n in simp_all)
  then show ?thesis using assms n by (simp add: queueDiscoveryRequest_eq pushQueue_def)
qed

end
