(* ===== verification/Reconnect.thy ===== *)
theory Reconnect
  imports Chat_Session
begin

text \<open>
  \<^verbatim>\<open>onStreamEstablished\<close> on any client: the list of subscriptions and its invariant, the
  termination of the range-for that grows the list it iterates over, and the requests the
  loop puts on the wire.
\<close>

section \<open>The list of subscriptions\<close>

text \<open>
  The constructor puts the cluster type in front without marking it subscribed; every later
  entry is appended together with its mark.
\<close>

definition grows :: "'w ads_client \<Rightarrow> 'w ads_client \<Rightarrow> bool" where
  "grows s s' \<longleftrightarrow> (\<exists>ts. subscriptions s' = subscriptions s @ ts \<and>
     (\<forall>t. subscribed (api_of s t) \<or> t \<in> set ts \<longrightarrow> subscribed (api_of s' t)))"

definition tracked :: "'w ads_client \<Rightarrow> bool" where
  "tracked s \<longleftrightarrow> (\<exists>ts. subscriptions s = cluster_type_url # ts \<and> (\<forall>t\<in>set ts. subscribed (api_of s t)))"

lemma grows_tracked: "grows s s' \<Longrightarrow> tracked s \<Longrightarrow> tracked s'"
  by (fastforce simp: tracked_def grows_def)

lemma grows_same:
  "subscriptions s' = subscriptions s \<Longrightarrow> (\<And>t. subscribed (api_of s' t) = subscribed (api_of s t)) \<Longrightarrow>
   grows s s'"
  by (simp add: grows_def)

lemma grows_frame: "subscriptions s' = subscriptions s \<Longrightarrow> api_states s' = api_states s \<Longrightarrow> grows s s'"
  by (rule grows_same) (simp_all add: api_of_def)

lemma grows_trans: "grows s s1 \<Longrightarrow> grows s1 s2 \<Longrightarrow> grows s s2"
  unfolding grows_def by (elim exE conjE, rule_tac x = "ts @ tsa" in exI) auto

interpretation growth: request_path_rel g grows for g
proof
  fix s s1 :: "'a ads_client" and t q q' r w m
  show "grows s (final (prepareRequest t s))"
    by (auto simp: prepareRequest_eq grows_def)
  show "grows s1 (final (transmit g t s1))"
    by (simp add: transmit_eq grows_def)
  show "transp (grows :: 'a ads_client \<Rightarrow> _)"
    by (blast intro: transpI grows_trans)
qed (simp_all add: grows_def)

lemma grows_path:
  "queueDiscoveryRequest g n t s = Inr s' \<Longrightarrow> grows s s'"
  "onDiscoveryResponse g n m s = Inr s' \<Longrightarrow> grows s s'"
  "requeueFrom g n i s = Inr s' \<Longrightarrow> grows s s'"
  using growth.request_path(1) [of s g n t] growth.request_path(5) [of s g n m]
    growth.requeue_path [of s g n i] by simp_all

lemma grows_subscribeOnce: "grows s (subscribeOnce t s)"
  by (auto simp: grows_def subscribeOnce_def apiStateFor_eq)

lemma grows_updateResources: "updateResources p rs s = Inr s' \<Longrightarrow> grows s s'"
  by (auto simp: updateResources_def grows_def api_of_def modifyApi_eq split: option.splits)

lemma grows_Watcher: "Watcher p rs dec t s = Inr s' \<Longrightarrow> grows s s'"
  unfolding Watcher_def
  by (rule grows_trans [rotated], erule grows_updateResources)
    (auto simp: apiStateFor_eq intro!: grows_same)

lemma grows_erase: "grows s (eraseWatch p wt s)"
  by (simp add: eraseWatch_def grows_def)

lemma grows_remove:
  "(if c then queueDiscoveryRequest g n t (eraseWatch p wt s) else Inr (eraseWatch p wt s)) = Inr s' \<Longrightarrow>
   grows s s'"
  by (auto split: if_splits intro: grows_erase grows_trans [OF grows_erase grows_path(1)])

lemma grows_watch_ops:
  "addWatch g n p t rs dec s = Inr s' \<Longrightarrow> grows s s'"
  "Watcher_update g n p rs s = Inr s' \<Longrightarrow> grows s s'"
  "Watcher_destroy g n p s = Inr s' \<Longrightarrow> grows s s'"
proof -
  show "grows s s'" if "addWatch g n p t rs dec s = Inr s'"
    using that unfolding addWatch_def bind_res_Inr_iff
    by (blast intro: grows_trans grows_Watcher grows_subscribeOnce grows_path(1))
  show "grows s s'" if "Watcher_update g n p rs s = Inr s'"
    using that unfolding Watcher_update_def
    by (cases "watchers s p", simp, simp only: option.case bind_res_Inr_iff)
      (blast intro: grows_trans grows_remove grows_updateResources grows_path(1))
  show "grows s s'" if "Watcher_destroy g n p s = Inr s'"
    using that unfolding Watcher_destroy_def
    by (cases "watchers s p", simp, simp only: option.case bind_res_Inr_iff sum.inject)
      (force intro: grows_trans [OF grows_remove] grows_frame)
qed

lemma chatLoop_apis:
  "chatLoop g n s = Inr s' \<Longrightarrow> subscriptions s' = subscriptions s \<and> api_states s' = api_states s"
proof (induction n arbitrary: s)
  case (Suc n)
  then show ?case
    by (fastforce simp: bind_res_Inr_iff continueChat_def Let_def
        split: prod.splits option.splits if_splits)
qed simp

lemma grows_session: "AggregatedDiscoveryService g n s = Inr s' \<Longrightarrow> grows s s'"
  by (auto simp: AggregatedDiscoveryService_def Let_def split: if_splits
      dest!: chatLoop_apis intro!: grows_frame)

lemma grows_established: "onStreamEstablished g n s = Inr s' \<Longrightarrow> grows s s'"
  using grows_trans [OF grows_same grows_path(3), of "established (snd (rpc_open g (net s))) s" s g n 0 s']
  by (auto simp: onStreamEstablished_eq split: if_splits intro: grows_frame)

lemma grows_others:
  "grows s (setChannel s)" "grows s (snd (apiStateFor t s))"
  "continueChat g s = Inr s' \<Longrightarrow> grows s s'" "shutdown g s = Inr s' \<Longrightarrow> grows s s'"
  by (auto simp: setChannel_def apiStateFor_eq continueChat_def shutdown_def endStream_def Let_def
      bind_res_Inr_iff grows_def api_of_def split: if_splits prod.splits)

lemmas client_step_grows = grows_others grows_established grows_session grows_watch_ops grows_path

lemma reachable_tracked: "reachable g w s \<Longrightarrow> tracked s"
proof (induction rule: reachable.induct)
  case start
  show ?case by (simp add: AdsClient_def tracked_def)
next
  case (step s s')
  from step(2) have "grows s s'" by cases (blast intro: client_step_grows)+
  then show ?case using step.IH by (rule grows_tracked)
qed

section \<open>One round of the loop\<close>

lemma idle_round:
  assumes s: "live {} s" "request_queue s = Some []" "\<not> shutdown_flag s"
    and q: "queueDiscoveryRequest g n t s = Inr s'"
  shows "\<exists>ms. io_log s' = io_log s @ Wrote (next_request s t) # map ReadMsg ms @ [ReadEnd]"
    and "live {} s'" and "request_queue s' = Some []" and "\<not> shutdown_flag s'"
    and "\<not> first_stream_request s'"
    and "subscriptions s' = subscriptions s @
      (if first_stream_request s \<and> \<not> subscribed (api_of s t) then [t] else [])"
    and "subscribed (api_of s' t) \<longleftrightarrow> subscribed (api_of s t) \<or> first_stream_request s"
proof -
  have mn: "\<not> must_send_node (api_of s t)"
    using s(1) wf_api_of [of "{}" s t] by (simp add: live_def wf_api_def)
  have nr: "next_request (touch t s) t = next_request s t" by (simp add: next_request_def names_for_def)
  have "\<not> ran_out (queueDiscoveryRequest g n t s)" by (simp add: q)
  from idle_queue_outcome [OF s this] q obtain ms where
    ms: "io_log s' = io_log s @ Wrote (next_request s t) # map ReadMsg ms @ [ReadEnd]"
    and e: "request_queue s' = Some []"
    and st: "settled (sent g t (queued_alone t s)) (s'\<lparr>request_queue := Some [t]\<rparr>)"
    by (auto simp: nr split: if_splits)
  show "\<exists>ms. io_log s' = io_log s @ Wrote (next_request s t) # map ReadMsg ms @ [ReadEnd]"
    using ms by blast
  show "live {} s'"
    by (rule live_final [OF path.request_path(1) q s(1)])
  show "request_queue s' = Some []" by (rule e)
  show "\<not> shutdown_flag s'" "\<not> first_stream_request s'"
    using st s(3) by (auto simp: settled_def same_watches_def)
  have "subscriptions s' = subscriptions (sent g t (queued_alone t s))"
    using st by (simp add: settled_def)
  then show "subscriptions s' = subscriptions s @
      (if first_stream_request s \<and> \<not> subscribed (api_of s t) then [t] else [])"
    by (simp add: sent_def mn)
  show "subscribed (api_of s' t) \<longleftrightarrow> subscribed (api_of s t) \<or> first_stream_request s"
    using st mn by (simp add: settled_def)
qed

lemma next_request_type:
  assumes "live {} s" and "subscribed (api_of s t) \<or> first_stream_request s"
  shows "req_type_url (next_request s t) = t"
  using assms wf_api_of [of "{}" s t]
  by (auto simp: live_def next_request_def attach_def Let_def wf_api_def)

text \<open>
  The loop from index \<open>i\<close>: when it returns, it has written one request per entry of the list
  as the list is at the end, in the order of the list.
\<close>

lemma requeue_requests:
  assumes "live {} s" "request_queue s = Some []" "\<not> shutdown_flag s"
    and "\<forall>t\<in>set (drop (Suc i) (subscriptions s)). subscribed (api_of s t)"
    and "i < length (subscriptions s) \<longrightarrow>
      subscribed (api_of s (subscriptions s ! i)) \<or> first_stream_request s"
    and "requeueFrom g n i s = Inr s'"
  shows "\<exists>es ts. io_log s' = io_log s @ es \<and> subscriptions s' = subscriptions s @ ts \<and>
    map req_type_url (writes_of es) = drop i (subscriptions s')"
  using assms
proof (induction n arbitrary: i s)
  case (Suc n)
  let ?t = "subscriptions s ! i"
  show ?case
  proof (cases "i < length (subscriptions s)")
    case False
    with Suc.prems(6) show ?thesis by (intro exI [of _ "[]"]) simp
  next
    case True
    with Suc.prems(6) obtain s1 where q: "queueDiscoveryRequest g n ?t s = Inr s1"
      and rest: "requeueFrom g n (Suc i) s1 = Inr s'"
      by (auto simp: bind_res_Inr_iff)
    note r = idle_round [OF Suc.prems(1-3) q]
    have sub1: "\<forall>t\<in>set (drop (Suc i) (subscriptions s1)). subscribed (api_of s1 t)"
      using grows_path(1) [OF q] Suc.prems(4) r(6,7) True by (auto simp: grows_def)
    then have "\<forall>t\<in>set (drop (Suc (Suc i)) (subscriptions s1)). subscribed (api_of s1 t)"
      and "Suc i < length (subscriptions s1) \<longrightarrow> subscribed (api_of s1 (subscriptions s1 ! Suc i))"
      using set_drop_subset_set_drop [of "Suc i" "Suc (Suc i)" "subscriptions s1"]
        Cons_nth_drop_Suc [of "Suc i" "subscriptions s1"] by (auto, metis list.set_intros(1))
    with Suc.IH [OF r(2-4) _ _ rest] obtain es ts where es: "io_log s' = io_log s1 @ es"
      "subscriptions s' = subscriptions s1 @ ts"
      "map req_type_url (writes_of es) = drop (Suc i) (subscriptions s')"
      by blast
    obtain ms where ms: "io_log s1 = io_log s @ Wrote (next_request s ?t) # map ReadMsg ms @ [ReadEnd]"
      using r(1) by blast
    have "req_type_url (next_request s ?t) = ?t"
      by (rule next_request_type) (use Suc.prems(1,5) True in auto)
    moreover have "drop i (subscriptions s') = ?t # drop (Suc i) (subscriptions s')"
      using True es(2) r(6) by (simp add: Cons_nth_drop_Suc [symmetric] nth_append)
    ultimately show ?thesis
      using es ms r(6)
      by (intro exI [of _ "Wrote (next_request s ?t) # map ReadMsg ms @ ReadEnd # es"] exI) auto
  qed
qed simp

lemma established_requests:
  assumes wf: "wf_client s" and tr: "tracked s" and up: "\<not> shutdown_flag s"
    and op: "fst (rpc_open g (net s))" and run: "onStreamEstablished g n s = Inr s'"
  shows "\<exists>es. io_log s' = io_log s @ Opened True # es \<and>
    map req_type_url (writes_of es) = subscriptions s'"
proof -
  let ?s = "established (snd (rpc_open g (net s))) s"
  have "requeueFrom g n 0 ?s = Inr s'"
    using run op by (auto simp: onStreamEstablished_eq split: if_splits)
  then have "\<exists>es ts. io_log s' = io_log ?s @ es \<and> subscriptions s' = subscriptions ?s @ ts \<and>
      map req_type_url (writes_of es) = drop 0 (subscriptions s')"
    by (intro requeue_requests)
      (use tr up wf_established [OF wf] in \<open>auto simp: live_def tracked_def\<close>)
  then show ?thesis by auto
qed

section \<open>Termination\<close>

text \<open>
  Every round but the first leaves the list alone, so the loop makes at most one round more
  than the list had entries.
\<close>

definition rounds_left :: "'w ads_client \<Rightarrow> nat" where
  "rounds_left s = length (subscriptions s) + (if first_stream_request s then 1 else 0)"

lemma round_bounded:
  assumes "live {} s" "request_queue s = Some []" and "4 \<le> n"
    and q: "queueDiscoveryRequest g n t s = Inr s'"
  shows "live {} s' \<and> request_queue s' = Some [] \<and> rounds_left s' \<le> rounds_left s"
proof (cases "shutdown_flag s")
  case False
  from idle_round [OF assms(1,2) this q] show ?thesis by (simp add: rounds_left_def)
next
  case True
  have "s' = (touch t s)\<lparr>request_queue := Some []\<rparr>"
    using queue_silent [OF True _ assms(2), of t n g] assms(1,3) q wf_not_paused [of "{}" s t]
    by (auto simp: live_def)
  moreover have "live {} s'" by (rule live_final [OF path.request_path(1) q assms(1)])
  ultimately show ?thesis by (simp add: rounds_left_def)
qed

lemma requeue_fuel:
  assumes fin: "finite_stream g m" and "live {} s" and "request_queue s = Some []"
    and "6 * m (net s) + 6 + (rounds_left s - i) \<le> n"
  shows "\<not> ran_out (requeueFrom g n i s)"
  using assms(2-)
proof (induction n arbitrary: i s)
  case (Suc n)
  let ?t = "subscriptions s ! i"
  show ?case
  proof (cases "i < length (subscriptions s)")
    case True
    then have left: "0 < rounds_left s - i" by (simp add: rounds_left_def)
    have "\<not> ran_out (queueDiscoveryRequest g n ?t s)"
      by (rule enough_fuel(1) [OF fin]) (use Suc.prems left in \<open>simp add: fuel_bound_def queue_length_def\<close>)
    moreover have "\<not> ran_out (requeueFrom g n (Suc i) s1)"
      if q: "queueDiscoveryRequest g n ?t s = Inr s1" for s1
    proof -
      have r: "live {} s1 \<and> request_queue s1 = Some [] \<and> rounds_left s1 \<le> rounds_left s"
        by (rule round_bounded [OF Suc.prems(1,2) _ q]) (use Suc.prems(3) left in simp)
      have "m (net s1) \<le> m (net s)"
        using request_path_rel.request_path(1) [OF request_path_within [OF fin], of s n ?t] q
        by (simp add: within_def)
      with r left Suc.prems(3) show ?thesis by (intro Suc.IH) auto
    qed
    ultimately show ?thesis using True by (auto simp: ran_out_bind)
  qed simp
qed simp

lemma established_fuel:
  assumes "finite_stream g m" and "wf_client s"
    and "6 * m (snd (rpc_open g (net s))) + length (subscriptions s) + 7 \<le> n"
  shows "\<not> ran_out (onStreamEstablished g n s)"
proof -
  let ?s = "established (snd (rpc_open g (net s))) s"
  have "\<not> ran_out (requeueFrom g n 0 ?s)"
    by (rule requeue_fuel [OF assms(1)])
      (use assms(3) wf_established [OF assms(2)] in \<open>simp_all add: live_def rounds_left_def\<close>)
  then show ?thesis by (simp add: onStreamEstablished_eq)
qed

end
