(* ===== verification/Watch_Faults.thy ===== *)
theory Watch_Faults
  imports Reconnect
begin

text \<open>
  Faults and fuel of the operations that call the request path from outside: the watch
  operations and the reconnect. With or without a stream, the pop of an empty queue stays the
  only fault, and the bounds of the request path carry over.
\<close>

section \<open>Faults\<close>

lemma tame_queue: "wf_except P s \<Longrightarrow> tame (queueDiscoveryRequest g n t s)"
proof (cases "stream s")
  case True
  then show "wf_except P s \<Longrightarrow> tame (queueDiscoveryRequest g n t s)"
    by (intro tame_path(1) [of P]) (simp add: live_def)
next
  case False
  then show ?thesis by (cases n) (simp_all add: queueDiscoveryRequest_eq)
qed

lemma tame_response: "wf_except P s \<Longrightarrow> tame (onDiscoveryResponse g n m s)"
  by (cases n) (auto simp: onDiscoveryResponse_eq intro: tame_queue wf_recordResponse)

lemma tame_requeue: "wf_except P s \<Longrightarrow> tame (requeueFrom g n i s)"
proof (induction n arbitrary: i s)
  case (Suc n)
  have "tame (bind_res (queueDiscoveryRequest g n (subscriptions s ! i) s) (requeueFrom g n (Suc i)))"
  proof (rule tame_bind [OF tame_queue [OF Suc.prems]])
    fix s1
    assume "queueDiscoveryRequest g n (subscriptions s ! i) s = Inr s1"
    then show "tame (requeueFrom g n (Suc i) s1)"
      by (rule Suc.IH [OF wf_queueDiscoveryRequest [OF Suc.prems]])
  qed
  then show ?case by simp
qed simp

lemma tame_established: "wf_except P s \<Longrightarrow> stub s \<Longrightarrow> tame (onStreamEstablished g n s)"
  by (auto simp: onStreamEstablished_eq intro: tame_requeue wf_established)

lemma tame_addWatch:
  assumes "wf_client s" and "watchers s p = None"
  shows "tame (addWatch g n p t rs dec s)"
proof -
  obtain s1 where s1: "Watcher p rs dec t s = Inr s1" "wf_client s1"
    using wf_Watcher [OF assms] by blast
  then show ?thesis by (simp add: addWatch_def tame_queue [OF wf_subscribeOnce(1)])
qed

lemma tame_remove:
  assumes "wf_client s" and "watchers s p = Some wt"
  shows "tame (if c then queueDiscoveryRequest g n t (eraseWatch p wt s) else Inr (eraseWatch p wt s))"
  using tame_queue [OF wf_eraseWatch [OF assms]] by simp

lemma tame_update:
  assumes "wf_client s" and "watchers s p = Some wt"
  shows "tame (Watcher_update g n p rs s)"
  unfolding Watcher_update_def assms(2) option.case
proof (intro tame_bind tame_remove [OF assms])
  fix s1
  assume rm: "(if watch_resources wt \<noteq> [] then queueDiscoveryRequest g n (watch_type_url wt) (eraseWatch p wt s)
    else Inr (eraseWatch p wt s)) = Inr s1"
  note w1 = Watcher_remove_wf [OF assms rm]
  have "watchers s1 p = Some wt" using w1(2) assms(2) by (simp add: same_watches_def eraseWatch_def)
  from wf_updateResources [OF w1(1) this, of rs] obtain s2 where s2: "updateResources p rs s1 = Inr s2" "wf_client s2"
    by (auto simp: updateResources_def \<open>watchers s1 p = Some wt\<close>)
  then show "tame (updateResources p rs s1)" by simp
  show "tame (queueDiscoveryRequest g n (watch_type_url wt) s3)" if "updateResources p rs s1 = Inr s3" for s3
    using s2 that by (simp add: tame_queue)
qed

lemma tame_destroy:
  "wf_client s \<Longrightarrow> watchers s p = Some wt \<Longrightarrow> tame (Watcher_destroy g n p s)"
  using tame_bind [OF tame_remove, of s p wt "watch_resources wt \<noteq> []" g n "watch_type_url wt"]
  unfolding Watcher_destroy_def by simp

section \<open>Fuel\<close>

lemma fuel_bound_frame [simp]:
  "fuel_bound m (eraseWatch p wt s) = fuel_bound m s"
  "fuel_bound m (subscribeOnce t s) = fuel_bound m s"
  "fuel_bound m (touch t s) = fuel_bound m s"
  by (simp_all add: fuel_bound_def queue_length_def eraseWatch_def subscribeOnce_def apiStateFor_eq)

lemma fuel_updateResources: "updateResources p rs s = Inr s' \<Longrightarrow> fuel_bound m s' = fuel_bound m s"
  by (auto simp: updateResources_def fuel_bound_def queue_length_def split: option.splits)

lemma fuel_Watcher: "Watcher p rs dec t s = Inr s' \<Longrightarrow> fuel_bound m s' = fuel_bound m s"
  by (auto simp: Watcher_def apiStateFor_eq fuel_bound_def queue_length_def dest!: fuel_updateResources [where m = m])

lemma fuel_after_queue:
  assumes "finite_stream g m" and "queueDiscoveryRequest g n t s = Inr s'"
  shows "fuel_bound m s' \<le> fuel_bound m s"
proof -
  have "m (net s') \<le> m (net s)"
    using request_path_rel.request_path(1) [OF request_path_within [OF assms(1)], of s n t] assms(2)
    by (simp add: within_def)
  with queue_kept_length [OF queueDiscoveryRequest_queue [OF assms(2)]] show ?thesis
    by (simp add: fuel_bound_def)
qed

lemma fuel_addWatch:
  assumes "finite_stream g m" and "fuel_bound m s + 5 \<le> n"
  shows "\<not> ran_out (addWatch g n p t rs dec s)"
proof (cases "Watcher p rs dec t s")
  case (Inl e)
  then show ?thesis by (auto simp: Watcher_def updateResources_def)
next
  case (Inr s1)
  then have "fuel_bound m (subscribeOnce t s1) + 5 \<le> n" using assms(2) by (simp add: fuel_Watcher)
  from enough_fuel(1) [OF assms(1) this] Inr show ?thesis by (simp add: addWatch_def)
qed

lemma fuel_remove:
  assumes "finite_stream g m" and "fuel_bound m s + 5 \<le> n"
  shows "\<not> ran_out (if c then queueDiscoveryRequest g n t (eraseWatch p wt s) else Inr (eraseWatch p wt s))"
    and "(if c then queueDiscoveryRequest g n t (eraseWatch p wt s) else Inr (eraseWatch p wt s)) = Inr s' \<Longrightarrow>
      fuel_bound m s' \<le> fuel_bound m s"
  using enough_fuel(1) [OF assms(1), of "eraseWatch p wt s" n t] assms(2)
    fuel_after_queue [OF assms(1), of n t "eraseWatch p wt s" s'] by (auto split: if_splits)

lemma fuel_watch_ops:
  assumes "finite_stream g m" and "fuel_bound m s + 5 \<le> n"
  shows "\<not> ran_out (Watcher_update g n p rs s)" and "\<not> ran_out (Watcher_destroy g n p s)"
proof -
  note rm = fuel_remove [OF assms]
  have up: "\<not> ran_out (updateResources p rs s1)" for s1 :: "'a ads_client"
    by (simp add: updateResources_def split: option.split)
  have q: "\<not> ran_out (queueDiscoveryRequest g n t s2)"
    if "fuel_bound m s1 \<le> fuel_bound m s" "updateResources p rs s1 = Inr s2" for t s1 s2
    using enough_fuel(1) [OF assms(1), of s2 n t] that assms(2) by (simp add: fuel_updateResources)
  show "\<not> ran_out (Watcher_update g n p rs s)"
  proof (cases "watchers s p")
    case (Some wt)
    show ?thesis
      unfolding Watcher_update_def Some option.case ran_out_bind using rm(1,2) up q by blast
  qed (simp add: Watcher_update_def)
  show "\<not> ran_out (Watcher_destroy g n p s)"
  proof (cases "watchers s p")
    case (Some wt)
    show ?thesis
      unfolding Watcher_destroy_def Some option.case ran_out_bind using rm(1) by simp
  qed (simp add: Watcher_destroy_def)
qed

end
