(* ===== verification/Operation_Runs.thy ===== *)
theory Operation_Runs
  imports Watch_Faults
begin

text \<open>
  The public operations of the multiplexer as data, and what a client may rely on of each:
  which operation faults and how, what it does to the abstract view of the watches, and what
  the requests it writes ask for. A run is the sequence of operations that returned; the
  reachable states are those of the runs.
\<close>

section \<open>Operations and runs\<close>

datatype client_op =
    SetChannel
  | Lookup string
  | Establish
  | AddWatch address string std_set nat
  | UpdateWatch address std_set
  | DestroyWatch address
  | QueueRequest string
  | HandleResponse discovery_response
  | ContinueChat
  | ChatSession
  | Shutdown

fun perform :: "'w sync_rpc \<Rightarrow> nat \<Rightarrow> client_op \<Rightarrow> 'w ads_client \<Rightarrow> 'w ads_client call" where
  "perform g n SetChannel s = Inr (setChannel s)"
| "perform g n (Lookup t) s = Inr (snd (apiStateFor t s))"
| "perform g n Establish s = onStreamEstablished g n s"
| "perform g n (AddWatch p t rs dec) s = addWatch g n p t rs dec s"
| "perform g n (UpdateWatch p rs) s = Watcher_update g n p rs s"
| "perform g n (DestroyWatch p) s = Watcher_destroy g n p s"
| "perform g n (QueueRequest t) s = queueDiscoveryRequest g n t s"
| "perform g n (HandleResponse m) s = onDiscoveryResponse g n m s"
| "perform g n ContinueChat s = continueChat g s"
| "perform g n ChatSession s = AggregatedDiscoveryService g n s"
| "perform g n Shutdown s = shutdown g s"

text \<open>A new watcher is allocated where no live one is.\<close>

fun fresh_op :: "client_op \<Rightarrow> 'w ads_client \<Rightarrow> bool" where
  "fresh_op (AddWatch p t rs dec) s \<longleftrightarrow> watchers s p = None"
| "fresh_op _ s \<longleftrightarrow> True"

inductive runs :: "'w sync_rpc \<Rightarrow> 'w \<Rightarrow> client_op list \<Rightarrow> 'w ads_client \<Rightarrow> bool" for g w where
  start: "runs g w [] (AdsClient w)"
| step: "runs g w ops s \<Longrightarrow> fresh_op x s \<Longrightarrow> perform g n x s = Inr s' \<Longrightarrow> runs g w (ops @ [x]) s'"

lemma perform_step: "fresh_op x s \<Longrightarrow> perform g n x s = Inr s' \<Longrightarrow> client_step g s s'"
  by (cases x) (auto intro: client_step.intros)

lemma step_perform:
  assumes "client_step g s s'"
  shows "\<exists>n x. fresh_op x s \<and> perform g n x s = Inr s'"
  using assms
proof cases
  case channel then show ?thesis by (intro exI [of _ SetChannel] exI) simp
next
  case (lookup t) then show ?thesis by (intro exI [of _ "Lookup t"] exI) simp
next
  case (established n) then show ?thesis by (intro exI [of _ Establish] exI [of _ n]) simp
next
  case (add_watch p n t rs dec)
  then show ?thesis by (intro exI [of _ "AddWatch p t rs dec"] exI [of _ n]) simp
next
  case (update_watch n p rs) then show ?thesis by (intro exI [of _ "UpdateWatch p rs"] exI [of _ n]) simp
next
  case (destroy_watch n p) then show ?thesis by (intro exI [of _ "DestroyWatch p"] exI [of _ n]) simp
next
  case (queue n t) then show ?thesis by (intro exI [of _ "QueueRequest t"] exI [of _ n]) simp
next
  case (response n m) then show ?thesis by (intro exI [of _ "HandleResponse m"] exI [of _ n]) simp
next
  case chat then show ?thesis by (intro exI [of _ ContinueChat] exI) simp
next
  case (session n) then show ?thesis by (intro exI [of _ ChatSession] exI [of _ n]) simp
next
  case stop then show ?thesis by (intro exI [of _ Shutdown] exI) simp
qed

lemma runs_reachable: "runs g w ops s \<Longrightarrow> reachable g w s"
  by (induction rule: runs.induct) (auto intro: reachable.intros perform_step)

lemma reachable_runs: "reachable g w s \<Longrightarrow> \<exists>ops. runs g w ops s"
  by (induction rule: reachable.induct) (blast intro: runs.intros dest: step_perform)+

section \<open>Faults\<close>

text \<open>The fault of an operation called where it must not be: no channel, no stream, no such watcher.\<close>

fun misuse :: "client_op \<Rightarrow> 'w ads_client \<Rightarrow> fault option" where
  "misuse Establish s = (if stub s then None else Some NullStub)"
| "misuse (UpdateWatch p rs) s = (if watchers s p = None then Some DanglingWatcher else None)"
| "misuse (DestroyWatch p) s = (if watchers s p = None then Some DanglingWatcher else None)"
| "misuse ContinueChat s = (if stream s then None else Some NullStream)"
| "misuse ChatSession s = (if stream s then None else Some NullStream)"
| "misuse Shutdown s = (if stream s then None else Some NullStream)"
| "misuse _ s = None"

lemma misuse_faults: "misuse x s = Some e \<Longrightarrow> \<exists>s'. perform g n x s = Inl (e, s')"
  by (cases x)
    (auto simp: onStreamEstablished_eq Watcher_update_def Watcher_destroy_def continueChat_def Let_def
      AggregatedDiscoveryService_def shutdown_def endStream_def halt_def split: if_splits)

lemma tame_chatLoop: "stream s \<Longrightarrow> tame (chatLoop g n s)"
proof (induction n arbitrary: s)
  case (Suc n)
  then show ?case
    by (auto simp: continueChat_def Let_def split: prod.split option.split)
qed simp

lemma tame_perform:
  assumes "wf_client s" and "fresh_op x s" and "misuse x s = None"
  shows "tame (perform g n x s)"
proof (cases x)
  case (UpdateWatch p rs)
  with assms(3) obtain wt where "watchers s p = Some wt" by (auto split: if_splits)
  from tame_update [OF assms(1) this] show ?thesis by (simp add: UpdateWatch)
next
  case (DestroyWatch p)
  with assms(3) obtain wt where "watchers s p = Some wt" by (auto split: if_splits)
  from tame_destroy [OF assms(1) this] show ?thesis by (simp add: DestroyWatch)
qed (use assms in \<open>auto simp: tame_established tame_addWatch tame_queue tame_response tame_chatLoop continueChat_def
    Let_def AggregatedDiscoveryService_def shutdown_def endStream_def split: if_splits prod.split\<close>)

section \<open>The view of the watches\<close>

text \<open>The abstract operation an operation refines; \<open>None\<close> where it cannot have returned.\<close>

fun view_op :: "client_op \<Rightarrow> view \<Rightarrow> view option" where
  "view_op (AddWatch p t rs dec) v = (if v p = None then Some (v(p \<mapsto> (t, set rs))) else None)"
| "view_op (UpdateWatch p rs) v = (case v p of None \<Rightarrow> None | Some (t, R) \<Rightarrow> Some (v(p \<mapsto> (t, set rs))))"
| "view_op (DestroyWatch p) v = (if v p = None then None else Some (v(p := None)))"
| "view_op _ v = Some v"

fun view_run :: "client_op list \<Rightarrow> view \<Rightarrow> view option" where
  "view_run [] v = Some v"
| "view_run (x # xs) v = Option.bind (view_op x v) (view_run xs)"

lemma view_run_append: "view_run (xs @ ys) v = Option.bind (view_run xs v) (view_run ys)"
  by (induction xs arbitrary: v) (auto split: Option.bind_split)

lemma watch_view_None: "watch_view s p = None \<longleftrightarrow> watchers s p = None"
  by (simp add: watch_view_def)

lemma perform_view:
  assumes "wf_client s" and "fresh_op x s" and "perform g n x s = Inr s'"
  shows "view_op x (watch_view s) = Some (watch_view s')"
proof (cases x)
  case (AddWatch p t rs dec)
  with assms addWatch_view [OF assms(1), of p g n t rs dec s'] show ?thesis by (simp add: watch_view_None)
next
  case (UpdateWatch p rs)
  with assms Watcher_update_view [OF assms(1), of g n p rs s'] show ?thesis by auto
next
  case (DestroyWatch p)
  with assms Watcher_destroy_view [OF assms(1), of g n p s'] show ?thesis by auto
qed (use assms watch_view_cong [of s' s] path_watchers [OF assms(1)] session_watchers(1,3) [of g s s']
      session_watchers(2) [of g n s s'] established_watchers [OF assms(1)] in \<open>auto simp: setChannel_def apiStateFor_eq\<close>)

lemma runs_view: "runs g w ops s \<Longrightarrow> view_run ops Map.empty = Some (watch_view s)"
proof (induction rule: runs.induct)
  case start
  show ?case by (simp add: watch_view_def AdsClient_def fun_eq_iff)
next
  case (step ops s x n s')
  with perform_view [OF reachable_wf [OF runs_reachable [OF step(1)]] step(2,3)] show ?case
    by (simp add: view_run_append)
qed

section \<open>What requests ask for\<close>

text \<open>
  The views an operation writes its requests under, in order: an update first drops the
  watch, asks for what is left, and asks again with the new resources.
\<close>

fun view_phases :: "client_op \<Rightarrow> view \<Rightarrow> view list" where
  "view_phases (AddWatch p t rs dec) v = [v(p \<mapsto> (t, set rs))]"
| "view_phases (UpdateWatch p rs) v = v(p := None) #
     (case v p of None \<Rightarrow> [] | Some (t, R) \<Rightarrow> [v(p \<mapsto> (t, set rs))])"
| "view_phases (DestroyWatch p) v = [v(p := None)]"
| "view_phases _ v = [v]"

text \<open>A request that names exactly the resources its type is asked for, each once; it may leave the type out when there are none.\<close>

definition asks_for :: "view \<Rightarrow> discovery_request \<Rightarrow> bool" where
  "asks_for v r \<longleftrightarrow> (set (req_resource_names r) = interest v (req_type_url r) \<or>
     req_type_url r = [] \<and> req_resource_names r = []) \<and>
   distinct (req_resource_names r) \<and> req_error_detail r = None"

text \<open>The two operations of the chat session write their own request, which asks for everything.\<close>

definition asks_all :: "discovery_request \<Rightarrow> bool" where
  "asks_all r \<longleftrightarrow> req_resource_names r = [] \<and> req_error_detail r = None"

definition chat_op :: "client_op \<Rightarrow> bool" where
  "chat_op x \<longleftrightarrow> x = ContinueChat \<or> x = ChatSession"

definition watched_subscribed :: "'w ads_client \<Rightarrow> bool" where
  "watched_subscribed s \<longleftrightarrow> (\<forall>t. watches (api_of s t) \<noteq> [] \<longrightarrow> subscribed (api_of s t))"

lemma watched_same: "same_watches s s' \<Longrightarrow> watched_subscribed s \<Longrightarrow> watched_subscribed s'"
  by (simp add: same_watches_def watched_subscribed_def)

lemma watched_erase: "watched_subscribed s \<Longrightarrow> watched_subscribed (eraseWatch p wt s)"
  by (auto simp: watched_subscribed_def eraseWatch_def) (metis remove1.simps(1))

lemma watched_cong:
  "(\<And>t. watches (api_of s' t) = watches (api_of s t) \<and> subscribed (api_of s' t) = subscribed (api_of s t)) \<Longrightarrow>
   watched_subscribed s' = watched_subscribed s"
  by (simp add: watched_subscribed_def)

text \<open>What the request path writes, from a state in which every watched type is subscribed.\<close>

definition wrote_for :: "view \<Rightarrow> 'w ads_client \<Rightarrow> 'w ads_client \<Rightarrow> bool" where
  "wrote_for v s s' \<longleftrightarrow> (\<exists>es. io_log s' = io_log s @ es \<and> (\<forall>r\<in>set (writes_of es). asks_for v r))"

lemma wrote_for_quiet: "io_log s' = io_log s \<Longrightarrow> wrote_for v s s'"
  by (simp add: wrote_for_def)

lemma asks_for_formed:
  assumes "wf_except P s" and "watched_subscribed s" and "well_formed_request s r"
  shows "asks_for (watch_view s |` (- P)) r"
proof -
  from assms(3) obtain t where t: "req_type_url r = t \<or> req_type_url r = [] \<and> \<not> subscribed (api_of s t)"
    "req_resource_names r = names_for s t" "req_error_detail r = None"
    by (auto simp: well_formed_request_def)
  have "watches (api_of s t) = []" if "\<not> subscribed (api_of s t)"
    using that assms(2) by (auto simp: watched_subscribed_def)
  then have "names_for s t = []" if "\<not> subscribed (api_of s t)"
    using that by (simp add: names_for_def watched_names_def dedup_def)
  with t names_for_listed [OF assms(1), of t] show ?thesis by (auto simp: asks_for_def)
qed

lemma path_wrote:
  assumes "wf_except P s" and "watched_subscribed s" and "path_rel P s s'"
  shows "wrote_for (watch_view s |` (- P)) s s'"
  using path_final [OF assms(1,3)] asks_for_formed [OF assms(1,2)] unfolding wrote_for_def by metis

lemmas queue_wrote = path_wrote [OF _ _ path.request_path(1)]

lemma watched_addWatch:
  assumes "Watcher p rs dec t s = Inr s1" and "watched_subscribed s"
  shows "watched_subscribed (subscribeOnce t s1)"
  using assms by (auto simp: watched_subscribed_def subscribeOnce_def apiStateFor_eq Watcher_def updateResources_def)

lemma watched_updateResources:
  assumes "updateResources p rs s = Inr s'" and "watched_subscribed s" and "watchers s p = Some wt"
    and "subscribed (api_of s (watch_type_url wt))"
  shows "watched_subscribed s'"
  using assms by (auto simp: watched_subscribed_def updateResources_def)

lemma listed_subscribed:
  assumes "wf_client s" and "watched_subscribed s" and "watchers s p = Some wt"
  shows "subscribed (api_of s (watch_type_url wt))"
proof -
  have "watches (api_of s (watch_type_url wt)) \<noteq> []" using wf_store(2) [OF assms(1,3)] by auto
  with assms(2) show ?thesis by (simp add: watched_subscribed_def)
qed

text \<open>The store between the two halves of an update, and the state it writes its last requests from.\<close>

lemma removed_watch:
  assumes "wf_client s" and "watched_subscribed s" and "watchers s p = Some wt"
    and "(if watch_resources wt \<noteq> [] then queueDiscoveryRequest g n (watch_type_url wt) (eraseWatch p wt s)
          else Inr (eraseWatch p wt s)) = Inr s1"
  shows "watched_subscribed s1" and "subscribed (api_of s1 (watch_type_url wt))" and "watchers s1 = watchers s"
proof -
  have same: "same_watches (eraseWatch p wt s) s1" by (rule Watcher_remove_wf(2) [OF assms(1,3,4)])
  show "watched_subscribed s1" by (rule watched_same [OF same watched_erase [OF assms(2)]])
  show "subscribed (api_of s1 (watch_type_url wt))" "watchers s1 = watchers s"
    using same listed_subscribed [OF assms(1-3)] by (auto simp: same_watches_def eraseWatch_def)
qed

lemma watched_step: "client_step g s s' \<Longrightarrow> wf_client s \<Longrightarrow> watched_subscribed s \<Longrightarrow> watched_subscribed s'"
proof (induction rule: client_step.induct)
  case (established n s s')
  let ?s = "established (snd (rpc_open g (net s))) s"
  have "watched_subscribed ?s" using established.prems(2) by (simp add: watched_subscribed_def)
  with path_wf(2) [OF wf_established [OF established.prems(1)] path.requeue_path [of "{}" ?s g n 0]]
  have "watched_subscribed (final (requeueFrom g n 0 ?s))" by (rule watched_same)
  with established show ?case
    by (auto simp: onStreamEstablished_eq watched_subscribed_def split: if_splits)
next
  case (add_watch s p n t rs dec s')
  obtain s1 where s1: "Watcher p rs dec t s = Inr s1" "wf_client s1" "path_rel {} (subscribeOnce t s1) s'"
    by (rule addWatch_wf [OF add_watch.prems(1) add_watch.hyps])
  show ?case
    by (rule watched_same [OF path_wf(2) [OF wf_subscribeOnce(1) [OF s1(2)] s1(3)]
          watched_addWatch [OF s1(1) add_watch.prems(2)]])
next
  case (update_watch n p rs s s')
  from update_watch.hyps obtain wt s1 s2 where wt: "watchers s p = Some wt"
    and rm: "(if watch_resources wt \<noteq> [] then queueDiscoveryRequest g n (watch_type_url wt) (eraseWatch p wt s)
      else Inr (eraseWatch p wt s)) = Inr s1"
    and up: "updateResources p rs s1 = Inr s2" and q: "queueDiscoveryRequest g n (watch_type_url wt) s2 = Inr s'"
    unfolding Watcher_update_def by (auto simp: bind_res_Inr_iff split: option.splits)
  note r = removed_watch [OF update_watch.prems wt rm]
  have "wf_client s2"
    using wf_updateResources [OF Watcher_remove_wf(1) [OF update_watch.prems(1) wt rm], of p wt rs] up wt r(3) by simp
  from path_wf(2) [OF this path.request_path(1) [of "{}" s2 g n "watch_type_url wt"]]
  have "same_watches s2 s'" by (simp add: q)
  then show ?case
    by (rule watched_same) (rule watched_updateResources [OF up r(1) _ r(2)], simp add: wt r(3))
next
  case (destroy_watch n p s s')
  from destroy_watch.hyps obtain wt s1 where wt: "watchers s p = Some wt"
    and rm: "(if watch_resources wt \<noteq> [] then queueDiscoveryRequest g n (watch_type_url wt) (eraseWatch p wt s)
      else Inr (eraseWatch p wt s)) = Inr s1"
    and s': "s' = s1\<lparr>watchers := (watchers s1)(p := None)\<rparr>"
    unfolding Watcher_destroy_def by (auto simp: bind_res_Inr_iff split: option.splits)
  with removed_watch(1) [OF destroy_watch.prems wt rm] show ?case by (simp add: watched_subscribed_def)
next
  case (queue n t s s')
  with path_wf(2) [OF queue.prems(1) path.request_path(1) [of "{}" s g n t]] show ?case by (auto intro: watched_same)
next
  case (response n m s s')
  with path_wf(2) [OF response.prems(1) path.request_path(5) [of "{}" s g n m]] show ?case by (auto intro: watched_same)
next
  case (chat s s')
  then show ?case
    by (auto simp: continueChat_def Let_def watched_subscribed_def api_of_def split: if_splits)
next
  case (session n s s')
  then show ?case
    by (auto simp: AggregatedDiscoveryService_def Let_def watched_subscribed_def api_of_def split: if_splits dest!: chatLoop_apis)
next
  case (stop s s')
  then show ?case
    by (auto simp: shutdown_def endStream_def bind_res_Inr_iff watched_subscribed_def api_of_def split: if_splits prod.splits)
qed (simp_all add: watched_subscribed_def setChannel_def apiStateFor_eq api_of_def)

lemma reachable_watched: "reachable g w s \<Longrightarrow> watched_subscribed s"
proof (induction rule: reachable.induct)
  case start
  show ?case by (simp add: watched_subscribed_def AdsClient_def api_of_def)
qed (blast intro: watched_step reachable_wf)

section \<open>The requests of each operation\<close>

lemma wrote_for_via: "wrote_for v s1 s2 \<Longrightarrow> io_log s1 = io_log s @ es \<Longrightarrow> writes_of es = [] \<Longrightarrow> wrote_for v s s2"
  unfolding wrote_for_def by (elim exE, rule_tac x = "es @ esa" in exI) auto

lemma path_ops_wrote:
  assumes "wf_client s" and "watched_subscribed s"
  shows "wrote_for (watch_view s) s (final (queueDiscoveryRequest g n t s))"
    and "wrote_for (watch_view s) s (final (onDiscoveryResponse g n m s))"
  using path_wrote [OF assms path.request_path(1)] path_wrote [OF assms path.request_path(5)]
  by (simp_all add: restrict_map_def)

lemma updateResources_log: "updateResources p rs s = Inr s' \<Longrightarrow> io_log s' = io_log s"
  by (auto simp: updateResources_def split: option.splits)

lemma addWatch_wrote:
  assumes "wf_client s" and "watched_subscribed s" and "watchers s p = None"
  shows "wrote_for ((watch_view s)(p \<mapsto> (t, set rs))) s (final (addWatch g n p t rs dec s))"
proof -
  obtain s1 where s1: "Watcher p rs dec t s = Inr s1" "wf_client s1"
    using wf_Watcher [OF assms(1,3)] by blast
  have "watch_view (subscribeOnce t s1) = (watch_view s)(p \<mapsto> (t, set rs))"
    using watch_view_same [OF wf_subscribeOnce(2) [OF s1(2)]] Watcher_view [OF s1(1)] by simp
  moreover have "io_log (subscribeOnce t s1) = io_log s"
    using s1(1) updateResources_log [of p rs] by (force simp: subscribeOnce_def apiStateFor_eq Watcher_def)
  ultimately show ?thesis
    using path_ops_wrote(1) [OF wf_subscribeOnce(1) [OF s1(2)] watched_addWatch [OF s1(1) assms(2)], of g n t]
    by (simp add: addWatch_def s1(1) wrote_for_def)
qed

text \<open>The first half of an update and of a destruction.\<close>

lemma remove_wrote:
  assumes "wf_client s" and "watched_subscribed s" and "watchers s p = Some wt"
  shows "wrote_for ((watch_view s)(p := None)) s
    (final (if c then queueDiscoveryRequest g n t (eraseWatch p wt s) else Inr (eraseWatch p wt s)))"
proof -
  have "watch_view (eraseWatch p wt s) |` (- {p}) = (watch_view s)(p := None)"
    by (auto simp: watch_view_def eraseWatch_def restrict_map_def fun_eq_iff)
  with queue_wrote [OF wf_eraseWatch [OF assms(1,3)] watched_erase [OF assms(2)], of g n t]
  have q: "wrote_for ((watch_view s)(p := None)) (eraseWatch p wt s)
      (final (queueDiscoveryRequest g n t (eraseWatch p wt s)))" by simp
  have log: "io_log (eraseWatch p wt s) = io_log s" by (simp add: eraseWatch_def)
  with wrote_for_via [OF q, of s "[]"] wrote_for_quiet [OF log] show ?thesis by simp
qed

lemma destroy_wrote:
  assumes "wf_client s" and "watched_subscribed s"
  shows "wrote_for ((watch_view s)(p := None)) s (final (Watcher_destroy g n p s))"
proof (cases "watchers s p")
  case (Some wt)
  have "io_log (final (bind_res r (\<lambda>s1. Inr (s1\<lparr>watchers := (watchers s1)(p := None)\<rparr>)))) = io_log (final r)"
    for r :: "'a ads_client call"
    by (cases r) auto
  with remove_wrote [OF assms Some] show ?thesis by (simp only: Watcher_destroy_def Some option.case wrote_for_def)
qed (simp add: Watcher_destroy_def wrote_for_quiet)

lemma update_wrote:
  assumes "wf_client s" and "watched_subscribed s" and "watchers s p = Some wt"
  shows "\<exists>s1. wrote_for ((watch_view s)(p := None)) s s1 \<and>
    wrote_for ((watch_view s)(p \<mapsto> (watch_type_url wt, set rs))) s1 (final (Watcher_update g n p rs s))"
proof -
  let ?rm = "if watch_resources wt \<noteq> [] then queueDiscoveryRequest g n (watch_type_url wt) (eraseWatch p wt s)
    else Inr (eraseWatch p wt s)"
  note first = remove_wrote [OF assms, of "watch_resources wt \<noteq> []" g n "watch_type_url wt"]
  have eq: "Watcher_update g n p rs s =
      bind_res ?rm (\<lambda>s1. bind_res (updateResources p rs s1) (queueDiscoveryRequest g n (watch_type_url wt)))"
    unfolding Watcher_update_def assms(3) option.case ..
  show ?thesis
  proof (cases ?rm)
    case (Inl e)
    with first show ?thesis unfolding eq Inl by (auto simp: wrote_for_quiet)
  next
    case (Inr s1)
    note w1 = Watcher_remove_wf(1) [OF assms(1,3) Inr] and r = removed_watch [OF assms Inr]
    have p1: "watchers s1 p = Some wt" by (simp add: r(3) assms(3))
    obtain s2 where s2: "updateResources p rs s1 = Inr s2" "wf_client s2"
      using wf_updateResources [OF w1 p1, of rs] by auto
    have "watch_view s2 = (watch_view s)(p \<mapsto> (watch_type_url wt, set rs))"
      using updateResources_view [OF s2(1) p1] watch_view_cong [OF r(3)] by simp
    with path_ops_wrote(1) [OF s2(2) watched_updateResources [OF s2(1) r(1) p1 r(2)], of g n "watch_type_url wt"]
    have "wrote_for ((watch_view s)(p \<mapsto> (watch_type_url wt, set rs))) s1
        (final (queueDiscoveryRequest g n (watch_type_url wt) s2))"
      by (simp add: wrote_for_def updateResources_log [OF s2(1)])
    with first show ?thesis unfolding eq Inr by (auto simp: s2(1))
  qed
qed

lemma established_wrote:
  assumes "wf_client s" and "watched_subscribed s"
  shows "wrote_for (watch_view s) s (final (onStreamEstablished g n s))"
proof -
  let ?s = "established (snd (rpc_open g (net s))) s"
  have "watched_subscribed ?s" using assms(2) by (simp add: watched_subscribed_def)
  from path_wrote [OF wf_established [OF assms(1)] this path.requeue_path [of "{}" ?s g n 0]]
  have "wrote_for (watch_view s) ?s (final (requeueFrom g n 0 ?s))"
    by (simp add: restrict_map_def watch_view_cong [of ?s s])
  from wrote_for_via [OF this, of s "[Opened True]"] show ?thesis
    by (auto simp: onStreamEstablished_eq wrote_for_quiet) (simp add: wrote_for_def)
qed

lemma shutdown_wrote: "wrote_for v s (final (shutdown g s))"
  by (auto simp: shutdown_def endStream_def wrote_for_def split: prod.split)

definition wrote_phases :: "view list \<Rightarrow> 'w ads_client \<Rightarrow> 'w ads_client \<Rightarrow> bool" where
  "wrote_phases vs s s' \<longleftrightarrow> (\<exists>ess. io_log s' = io_log s @ concat ess \<and>
     list_all2 (\<lambda>v es. \<forall>r\<in>set (writes_of es). asks_for v r) vs ess)"

lemma wrote_phases_simps:
  "wrote_phases [] s s' \<longleftrightarrow> io_log s' = io_log s"
  "wrote_phases [v] s s' \<longleftrightarrow> wrote_for v s s'"
proof -
  show "wrote_phases [] s s' \<longleftrightarrow> io_log s' = io_log s" by (auto simp: wrote_phases_def)
  show "wrote_phases [v] s s' \<longleftrightarrow> wrote_for v s s'"
    by (auto simp: wrote_phases_def wrote_for_def list_all2_Cons1 intro: exI [of _ "[_]"])
qed

lemma wrote_phases_two:
  assumes "wrote_for v s s1" and "wrote_for v' s1 s'"
  shows "wrote_phases [v, v'] s s'"
proof -
  from assms obtain es es' where "io_log s1 = io_log s @ es" "\<forall>r\<in>set (writes_of es). asks_for v r"
    "io_log s' = io_log s1 @ es'" "\<forall>r\<in>set (writes_of es'). asks_for v' r"
    by (auto simp: wrote_for_def)
  then show ?thesis by (auto simp: wrote_phases_def intro!: exI [of _ "[es, es']"])
qed

lemma perform_wrote:
  assumes "wf_client s" and "watched_subscribed s" and "fresh_op x s" and "\<not> chat_op x"
  shows "wrote_phases (view_phases x (watch_view s)) s (final (perform g n x s))"
proof (cases x)
  case (UpdateWatch p rs)
  show ?thesis
  proof (cases "watchers s p")
    case None
    then show ?thesis
      by (simp add: UpdateWatch wrote_phases_simps watch_view_def Watcher_update_def wrote_for_quiet)
  next
    case (Some wt)
    then have "watch_view s p = Some (watch_type_url wt, set (watch_resources wt))" by (simp add: watch_view_def)
    with update_wrote [OF assms(1,2) Some, of rs g n] show ?thesis
      by (auto simp: UpdateWatch intro: wrote_phases_two)
  qed
qed (use assms in \<open>auto simp: wrote_phases_simps wrote_for_quiet addWatch_wrote destroy_wrote established_wrote
    path_ops_wrote shutdown_wrote setChannel_def apiStateFor_eq chat_op_def\<close>)

section \<open>The chat session's request\<close>

lemma discoveryRequest_frame [simp]:
  "discoveryRequest (touch t s) = discoveryRequest s" "discoveryRequest (modifyApi t f s) = discoveryRequest s"
  "discoveryRequest (logRead r w s) = discoveryRequest s"
  "discoveryRequest (recordResponse m s) = discoveryRequest s"
  "discoveryRequest (established w s) = discoveryRequest s"
  "discoveryRequest (eraseWatch p wt s) = discoveryRequest s"
  "discoveryRequest (subscribeOnce t s) = discoveryRequest s"
  by (simp_all add: touch_def modifyApi_eq logRead_def recordResponse_def Let_def established_def clearNonce_def
      eraseWatch_def subscribeOnce_def apiStateFor_eq)

interpretation chat_frame: request_path_rel g "\<lambda>s s'. discoveryRequest s' = discoveryRequest s" for g
  by unfold_locales (simp_all add: prepareRequest_eq transmit_eq transp_def)

lemma discoveryRequest_path:
  "queueDiscoveryRequest g n t s = Inr s' \<Longrightarrow> discoveryRequest s' = discoveryRequest s"
  "onDiscoveryResponse g n m s = Inr s' \<Longrightarrow> discoveryRequest s' = discoveryRequest s"
  "requeueFrom g n i s = Inr s' \<Longrightarrow> discoveryRequest s' = discoveryRequest s"
  using chat_frame.request_path(1,5) [of g n _ s] chat_frame.requeue_path [of g n i s] by (metis final.simps(2))+

lemma discoveryRequest_watch:
  "updateResources p rs s = Inr s' \<Longrightarrow> discoveryRequest s' = discoveryRequest s"
  "Watcher p rs dec t s = Inr s' \<Longrightarrow> discoveryRequest s' = discoveryRequest s"
  by (auto simp: updateResources_def Watcher_def apiStateFor_eq split: option.splits)

definition asked_all :: "'w ads_client \<Rightarrow> 'w ads_client \<Rightarrow> bool" where
  "asked_all s s' \<longleftrightarrow> asks_all (discoveryRequest s) \<longrightarrow> asks_all (discoveryRequest s') \<and>
     (\<exists>es. io_log s' = io_log s @ es \<and> (\<forall>r\<in>set (writes_of es). asks_all r))"

lemma asked_all_trans: "asked_all s s1 \<Longrightarrow> asked_all s1 s2 \<Longrightarrow> asked_all s s2"
  by (fastforce simp: asked_all_def)

lemma asked_all_logRead: "asked_all s (logRead r w s)"
  by (simp add: asked_all_def split: option.split)

lemma asked_all_continue:
  "asked_all s (final (continueChat g (s\<lparr>version_info := v, nonce := x\<rparr>)))"
  "asked_all s (final (continueChat g s))"
  by (simp_all add: asked_all_def asks_all_def continueChat_def Let_def)

lemma asked_all_chatLoop: "asked_all s (final (chatLoop g n s))"
proof (induction n arbitrary: s)
  case 0
  show ?case by (simp add: asked_all_def)
next
  case (Suc n)
  obtain r w where rw: "rpc_read g (net s) = (r, w)" by force
  show ?case
  proof (cases r)
    case None
    with rw asked_all_logRead [of s None w] show ?thesis by simp
  next
    case (Some m)
    let ?c = "continueChat g ((logRead (Some m) w s)\<lparr>version_info := resp_version_info m, nonce := resp_nonce m\<rparr>)"
    have "asked_all s (final ?c)" by (rule asked_all_trans [OF asked_all_logRead asked_all_continue(1)])
    with Suc.IH have "asked_all s (final (bind_res ?c (chatLoop g n)))"
      by (cases ?c) (auto intro: asked_all_trans)
    with rw Some show ?thesis by simp
  qed
qed

lemma asked_all_session: "asked_all s (final (AggregatedDiscoveryService g n s))"
proof -
  have "asked_all s (s\<lparr>discoveryRequest := q, net := w, io_log := io_log s @ [Wrote q]\<rparr>)"
    if "asks_all (discoveryRequest s) \<Longrightarrow> asks_all q" for q w
    using that by (simp add: asked_all_def)
  then show ?thesis
    by (auto simp: AggregatedDiscoveryService_def Let_def asks_all_def intro!: asked_all_trans [OF _ asked_all_chatLoop])
      (simp add: asked_all_def asks_all_def)
qed

lemma chat_ops_asked: "chat_op x \<Longrightarrow> asked_all s (final (perform g n x s))"
  using asked_all_continue(2) asked_all_session by (auto simp: chat_op_def)

lemma perform_discoveryRequest:
  assumes "perform g n x s = Inr s'" and "\<not> chat_op x"
  shows "discoveryRequest s' = discoveryRequest s"
proof (cases x)
  case Establish
  with assms show ?thesis by (auto simp: onStreamEstablished_eq dest!: discoveryRequest_path split: if_splits)
next
  case (AddWatch p t rs dec)
  with assms show ?thesis
    by (auto simp: addWatch_def bind_res_Inr_iff dest!: discoveryRequest_path(1) discoveryRequest_watch)
next
  case (UpdateWatch p rs)
  with assms show ?thesis
    by (auto simp: Watcher_update_def bind_res_Inr_iff dest!: discoveryRequest_path(1) discoveryRequest_watch(1)
        split: option.splits if_splits)
next
  case (DestroyWatch p)
  with assms show ?thesis
    by (auto simp: Watcher_destroy_def bind_res_Inr_iff dest!: discoveryRequest_path(1) split: option.splits if_splits)
qed (use assms in \<open>auto simp: chat_op_def setChannel_def apiStateFor_eq shutdown_def endStream_def bind_res_Inr_iff
    dest: discoveryRequest_path split: if_splits prod.splits\<close>)

lemma runs_asks_all: "runs g w ops s \<Longrightarrow> asks_all (discoveryRequest s)"
proof (induction rule: runs.induct)
  case start
  show ?case by (simp add: AdsClient_def asks_all_def empty_request_def)
next
  case (step ops s x n s')
  show ?case
  proof (cases "chat_op x")
    case True
    from chat_ops_asked [OF this, of s g n] step show ?thesis by (simp add: asked_all_def)
  next
    case False
    from perform_discoveryRequest [OF step(3) this] step show ?thesis by simp
  qed
qed

end
