(* ===== verification/Mux_Properties.thy ===== *)
theory Mux_Properties
  imports Operation_Runs
begin

text \<open>
  The properties of the ADS multiplexer, stated over the definitions of \<^verbatim>\<open>Ads_Client\<close>, each with
  an instance on the scripted transport where it has hypotheses.
\<close>

section \<open>The client the instances run on\<close>

text \<open>A client whose first stream is open, before the first request, against a scripted server.\<close>

abbreviation open_client :: "discovery_response list \<Rightarrow> discovery_response list ads_client" where
  "open_client ms \<equiv> start_state ms ms"

definition cds_response :: discovery_response where
  "cds_response = empty_response\<lparr>resp_version_info := ''1'', resp_resources := [empty_any],
     resp_type_url := cluster_type_url, resp_nonce := ''n1''\<rparr>"

lemma open_client_facts:
  "wf_client (open_client ms)" "stream (open_client ms)" "request_queue (open_client ms) = Some []"
  "\<not> shutdown_flag (open_client ms)" "net (open_client ms) = ms" "stub (open_client ms)"
  "subscriptions (open_client ms) = [cluster_type_url]" "watchers (open_client ms) p = None"
  using start_state_facts(1) [of ms ms]
  by (auto simp: plain_def live_def start_state_facts)
    (simp_all add: start_state_def setChannel_def AdsClient_def)

lemma AdsClient_facts:
  "wf_client (AdsClient w)" "\<not> stream (AdsClient w)" "\<not> stub (AdsClient w)"
  "watchers (AdsClient w) p = None" "api_of (AdsClient w) t = new_api_state"
  "reachable g w (AdsClient w)" "net (AdsClient w) = w" "io_log (AdsClient w) = []"
  by (simp_all add: wf_AdsClient reachable.start) (simp_all add: AdsClient_def api_of_def)

definition connected :: "discovery_response list ads_client" where
  "connected = final (onStreamEstablished script_rpc 20 (setChannel (AdsClient [])))"

lemma connected_run:
  "onStreamEstablished script_rpc 20 (setChannel (AdsClient [])) = Inr connected"
  "stream connected" "request_queue connected = Some []" "net connected = []"
  "\<not> shutdown_flag connected" "subscriptions connected = [cluster_type_url, cluster_type_url]"
proof -
  have "\<not> (case onStreamEstablished script_rpc 20 (setChannel (AdsClient [])) of Inl e \<Rightarrow> True | Inr _ \<Rightarrow> False)"
    by code_simp
  then show "onStreamEstablished script_rpc 20 (setChannel (AdsClient [])) = Inr connected"
    by (cases "onStreamEstablished script_rpc 20 (setChannel (AdsClient []))") (simp_all add: connected_def)
  show "stream connected" "request_queue connected = Some []" "net connected = []"
    "\<not> shutdown_flag connected" "subscriptions connected = [cluster_type_url, cluster_type_url]"
    by code_simp+
qed

lemma reachable_channel: "reachable g w (setChannel (AdsClient w))"
  by (rule reachable.step [OF reachable.start client_step.channel])

lemma reachable_connected: "reachable script_rpc [] connected"
  by (rule reachable.step [OF reachable_channel client_step.established [OF connected_run(1)]])

lemma queue_length_connected [simp]: "queue_length connected = 0"
  by (simp add: queue_length_def connected_run(3))

text \<open>The same client with one watch, of two endpoint resources.\<close>

definition watching :: "discovery_response list ads_client" where
  "watching = final (addWatch script_rpc 20 7 ''eds'' [''b'', ''a''] 0 connected)"

lemma watching_run:
  "addWatch script_rpc 20 7 ''eds'' [''b'', ''a''] 0 connected = Inr watching"
  "stream watching" "request_queue watching = Some []" "net watching = []" "watchers connected 7 = None"
  "\<not> shutdown_flag watching"
proof -
  have "\<not> (case addWatch script_rpc 20 7 ''eds'' [''b'', ''a''] 0 connected of Inl e \<Rightarrow> True | Inr _ \<Rightarrow> False)"
    by code_simp
  then show "addWatch script_rpc 20 7 ''eds'' [''b'', ''a''] 0 connected = Inr watching"
    by (cases "addWatch script_rpc 20 7 ''eds'' [''b'', ''a''] 0 connected") (simp_all add: watching_def)
  show "stream watching" "request_queue watching = Some []" "net watching = []" "watchers connected 7 = None"
    "\<not> shutdown_flag watching"
    by code_simp+
qed

lemma reachable_watching: "reachable script_rpc [] watching"
  by (rule reachable.step [OF reachable_connected client_step.add_watch [OF watching_run(5,1)]])

section \<open>The request path\<close>

text \<open>
  C1. A request queued on an idle client of a server that ends its stream: the request goes
  on the wire first, and the call returns, with the queue empty again, exactly when every
  message the server sends is quiet; otherwise it ends in a \<^verbatim>\<open>pop()\<close> on the empty queue.
\<close>

theorem idle_request_outcome:
  assumes "wf_client s" and "stream s" and "request_queue s = Some []" and "\<not> shutdown_flag s"
    and "finite_stream g m" and "6 * m (net s) + 5 \<le> n"
  shows "\<exists>es. io_log (final (queueDiscoveryRequest g n t s)) =
      io_log s @ Wrote (next_request (touch t s) t) # es \<and>
    (if \<forall>r\<in>set (reads_of es). quiet (touch t s) r
     then \<exists>s'. queueDiscoveryRequest g n t s = Inr s' \<and> request_queue s' = Some [] \<and>
       es = map ReadMsg (reads_of es) @ [ReadEnd]
     else \<exists>s'. queueDiscoveryRequest g n t s = Inl (PopEmptyQueue, s'))"
proof -
  have "\<not> ran_out (queueDiscoveryRequest g n t s)"
    by (rule enough_fuel(1) [OF assms(5)]) (use assms(3,6) in \<open>simp add: fuel_bound_def queue_length_def\<close>)
  from idle_queue_outcome [OF _ assms(3,4) this] assms(1,2) show ?thesis
    by (auto simp: live_def split: if_splits) metis+
qed

theorem idle_request_outcome_witness:
  "\<exists>s'. queueDiscoveryRequest script_rpc 11 cluster_type_url (open_client [cds_response]) = Inl (PopEmptyQueue, s')"
proof -
  let ?s = "open_client [cds_response]"
  have reads: "reads_of (io_log (final (queueDiscoveryRequest script_rpc 11 cluster_type_url ?s))) = [cds_response]"
    and loud: "\<not> quiet (touch cluster_type_url ?s) cds_response"
    by code_simp+
  from idle_request_outcome [OF open_client_facts(1-4) script_rpc_finite,
      of "[cds_response]" 11 cluster_type_url]
  obtain es where es: "io_log (final (queueDiscoveryRequest script_rpc 11 cluster_type_url ?s)) =
      io_log ?s @ Wrote (next_request (touch cluster_type_url ?s) cluster_type_url) # es"
    "if \<forall>r\<in>set (reads_of es). quiet (touch cluster_type_url ?s) r
     then \<exists>s'. queueDiscoveryRequest script_rpc 11 cluster_type_url ?s = Inr s' \<and> request_queue s' = Some [] \<and>
       es = map ReadMsg (reads_of es) @ [ReadEnd]
     else \<exists>s'. queueDiscoveryRequest script_rpc 11 cluster_type_url ?s = Inl (PopEmptyQueue, s')"
    by (auto simp: open_client_facts(5))
  have "reads_of es = [cds_response]" using reads unfolding es(1) by (simp add: start_state_facts(6))
  with es(2) loud show ?thesis by simp
qed

text \<open>
  C2. The program against a server whose stream opens and ends: it sends the cluster
  subscription with the node, then, because the request appended its type to the list being
  iterated over, the cluster request once more without the node, and shuts the stream down;
  unless the server sends a cluster response with resources, when it ends in the \<^verbatim>\<open>pop()\<close> on
  an empty queue.
\<close>

theorem main_session_outcome:
  assumes "finite_stream g m" and "rpc_open g w = (True, w')" and "6 * m w' + 7 \<le> n"
  shows "\<exists>es. io_log (final (main_ads g n w)) = [Opened True, Wrote first_request] @ es \<and>
    (if \<forall>x\<in>set (reads_of es). resp_type_url x = cluster_type_url \<longrightarrow> resp_resources x = []
     then \<exists>s' ms q ms' ok. main_ads g n w = Inr s' \<and> shutdown_flag s' \<and>
       es = map ReadMsg ms @ [ReadEnd, Wrote q] @ map ReadMsg ms' @ [ReadEnd, DoneWriting, Finished ok] \<and>
       req_type_url q = cluster_type_url \<and> req_node q = None
     else \<exists>s'. main_ads g n w = Inl (PopEmptyQueue, s'))"
proof (rule main_outcome [OF assms])
  fix ms q ms' ok s'
  assume r: "main_ads g n w = Inr s'" "shutdown_flag s'" "\<forall>x\<in>set (ms @ ms'). cds_quiet x"
    "req_type_url q = cluster_type_url" "req_node q = None"
    and log: "io_log s' = [Opened True, Wrote first_request] @ map ReadMsg ms @ [ReadEnd, Wrote q] @
      map ReadMsg ms' @ [ReadEnd, DoneWriting, Finished ok]"
  let ?es = "map ReadMsg ms @ [ReadEnd, Wrote q] @ map ReadMsg ms' @ [ReadEnd, DoneWriting, Finished ok]"
  have "\<forall>x\<in>set (reads_of ?es). resp_type_url x = cluster_type_url \<longrightarrow> resp_resources x = []"
    using r(3) by (auto simp: cds_quiet_def)
  then show ?thesis using r log by (intro exI [of _ ?es]) (auto simp: r(1))
next
  fix es x s'
  assume "main_ads g n w = Inl (PopEmptyQueue, s')" "io_log s' = Opened True # Wrote first_request # es"
    "x \<in> set (reads_of es)" "\<not> cds_quiet x"
  then show ?thesis by (intro exI [of _ es]) (auto simp: cds_quiet_def)
qed

theorem main_session_outcome_witness:
  "\<exists>s' ms q ms' ok. main_ads script_rpc 13 [empty_response] = Inr s' \<and> shutdown_flag s' \<and>
    io_log s' = [Opened True, Wrote first_request] @ map ReadMsg ms @ [ReadEnd, Wrote q] @
      map ReadMsg ms' @ [ReadEnd, DoneWriting, Finished ok] \<and> req_node q = None"
proof -
  have reads: "reads_of (io_log (final (main_ads script_rpc 13 [empty_response]))) = [empty_response]"
    by code_simp
  from main_session_outcome [OF script_rpc_finite, of "[empty_response]" "[empty_response]" 13]
  obtain es where es: "io_log (final (main_ads script_rpc 13 [empty_response])) = [Opened True, Wrote first_request] @ es"
    "if \<forall>x\<in>set (reads_of es). resp_type_url x = cluster_type_url \<longrightarrow> resp_resources x = []
     then \<exists>s' ms q ms' ok. main_ads script_rpc 13 [empty_response] = Inr s' \<and> shutdown_flag s' \<and>
       es = map ReadMsg ms @ [ReadEnd, Wrote q] @ map ReadMsg ms' @ [ReadEnd, DoneWriting, Finished ok] \<and>
       req_type_url q = cluster_type_url \<and> req_node q = None
     else \<exists>s'. main_ads script_rpc 13 [empty_response] = Inl (PopEmptyQueue, s')"
    by (auto simp: rpc_simps)
  have "reads_of es = [empty_response]" using reads unfolding es(1) by simp
  then have "\<forall>x\<in>set (reads_of es). resp_type_url x = cluster_type_url \<longrightarrow> resp_resources x = []"
    by (simp add: empty_response_def)
  with es(2) obtain s' ms q ms' ok where r: "main_ads script_rpc 13 [empty_response] = Inr s'" "shutdown_flag s'"
    "es = map ReadMsg ms @ [ReadEnd, Wrote q] @ map ReadMsg ms' @ [ReadEnd, DoneWriting, Finished ok]"
    "req_node q = None"
    by auto
  have "io_log s' = [Opened True, Wrote first_request] @ es" using es(1) r(1) by simp
  with r show ?thesis by blast
qed

text \<open>
  C3. Termination: against a server that sends finitely many messages every operation that
  reads from the stream has enough fuel, six units per message to come, one per queued
  request or subscription, and a constant.
\<close>

theorem request_path_terminates:
  assumes "finite_stream g m" and "wf_client s"
  shows "(6 * m (net s) + queue_length s + 5 \<le> n \<longrightarrow> \<not> ran_out (queueDiscoveryRequest g n t s)) \<and>
    (6 * m (net s) + queue_length s + 6 \<le> n \<longrightarrow> \<not> ran_out (onDiscoveryResponse g n r s)) \<and>
    (6 * m (snd (rpc_open g (net s))) + length (subscriptions s) + 7 \<le> n \<longrightarrow>
       \<not> ran_out (onStreamEstablished g n s)) \<and>
    (6 * m (net s) + queue_length s + 5 \<le> n \<longrightarrow> \<not> ran_out (addWatch g n p t rs dec s) \<and>
       \<not> ran_out (Watcher_update g n p rs s) \<and> \<not> ran_out (Watcher_destroy g n p s)) \<and>
    (m (net s) < n \<longrightarrow> \<not> ran_out (AggregatedDiscoveryService g n s))"
proof -
  have "\<not> ran_out (AggregatedDiscoveryService g n s)" if "m (net s) < n"
  proof (cases "stream s")
    case True
    from chat_session [OF assms(1) True that] show ?thesis by auto
  qed (simp add: AggregatedDiscoveryService_def Let_def)
  then show ?thesis
    using enough_fuel(1) [OF assms(1), of s n t] enough_fuel(5) [OF assms(1), of s n r]
      established_fuel [OF assms, of n] fuel_addWatch [OF assms(1), of s n p t rs dec]
      fuel_watch_ops(1) [OF assms(1), of s n p rs] fuel_watch_ops(2) [OF assms(1), of s n p] by (simp add: fuel_bound_def)
qed

theorem request_path_terminates_witness:
  "\<not> ran_out (queueDiscoveryRequest script_rpc 11 cluster_type_url (open_client [cds_response])) \<and>
   \<not> ran_out (onDiscoveryResponse script_rpc 12 cds_response (open_client [cds_response])) \<and>
   \<not> ran_out (onStreamEstablished script_rpc 14 (open_client [cds_response])) \<and>
   \<not> ran_out (AggregatedDiscoveryService script_rpc 2 (open_client [cds_response]))"
  using request_path_terminates [OF script_rpc_finite open_client_facts(1) [of "[cds_response]"], of 11]
    request_path_terminates [OF script_rpc_finite open_client_facts(1) [of "[cds_response]"], of 12]
    request_path_terminates [OF script_rpc_finite open_client_facts(1) [of "[cds_response]"], of 14]
    request_path_terminates [OF script_rpc_finite open_client_facts(1) [of "[cds_response]"], of 2]
  by (simp add: open_client_facts rpc_simps queue_length_def)

text \<open>
  C4. The faults of every public operation, from every state the operations can produce,
  with or without a channel, a stream or a watcher, and whatever the server sends: an operation
  called where it must not be (a stream opened without a channel, a chat or a shutdown without
  a stream, a watcher that is not alive updated or destroyed) ends in the fault of that misuse;
  any other call ends in no fault but the pop of an empty queue, so that a null stream, a null
  queue or a dangling watcher is never reached from inside the request path.
\<close>

theorem only_fault_is_empty_pop:
  assumes "reachable g w s" and "fresh_op x s"
  shows "case misuse x s of
      Some e \<Rightarrow> \<exists>s'. perform g n x s = Inl (e, s')
    | None \<Rightarrow> \<forall>e s'. perform g n x s = Inl (e, s') \<longrightarrow> e = PopEmptyQueue \<or> e = OutOfFuel"
  using misuse_faults [of x s _ g n] tame_perform [OF reachable_wf [OF assms(1)] assms(2), of g n]
  by (auto simp: tame_def split: option.split)

theorem only_fault_is_empty_pop_witness:
  "(\<exists>s'. onStreamEstablished script_rpc 6 (AdsClient []) = Inl (NullStub, s')) \<and>
   (\<exists>s'. Watcher_destroy script_rpc 6 7 connected = Inl (DanglingWatcher, s')) \<and>
   (\<nexists>e s'. queueDiscoveryRequest script_rpc 6 ''eds'' connected = Inl (e, s') \<and> e \<notin> {PopEmptyQueue, OutOfFuel}) \<and>
   (\<nexists>e s'. Watcher_update script_rpc 6 7 [''c''] watching = Inl (e, s') \<and> e \<notin> {PopEmptyQueue, OutOfFuel})"
proof -
  have "\<not> (case watchers watching 7 of None \<Rightarrow> True | Some v \<Rightarrow> False)" by code_simp
  then have live: "watchers watching 7 \<noteq> None" by (auto split: option.splits)
  note fault = only_fault_is_empty_pop [where n = 6 and g = script_rpc and w = "[]"]
  show ?thesis
    using fault [OF AdsClient_facts(6), of Establish] fault [OF reachable_connected, of "DestroyWatch 7"]
      fault [OF reachable_connected, of "QueueRequest ''eds''"] fault [OF reachable_watching, of "UpdateWatch 7 [''c'']"]
    by (auto simp: AdsClient_facts(3) watching_run(5) live)
qed

text \<open>
  C5. Every state the public operations can produce from a new client is well formed: watch
  lists hold live watchers of their own type, each once, and every live watcher is on the
  list of its type; a subscribed type is on the subscription list and its template names it;
  no type is paused, owes a node or carries an error; an open stream has a queue.
\<close>

theorem reachable_well_formed:
  assumes "reachable g w s"
  shows "(\<forall>t a. api_states s t = Some a \<longrightarrow> distinct (watches a) \<and>
      set (watches a) = {p. \<exists>wt. watchers s p = Some wt \<and> watch_type_url wt = t} \<and>
      (subscribed a \<longrightarrow> req_type_url (request a) = t \<and> t \<in> set (subscriptions s)) \<and>
      \<not> paused a \<and> \<not> must_send_node a \<and> req_error_detail (request a) = None) \<and>
    (\<forall>p wt. watchers s p = Some wt \<longrightarrow> std_set_ok (watch_resources wt) \<and>
      api_states s (watch_type_url wt) \<noteq> None) \<and>
    (stream s \<longrightarrow> request_queue s \<noteq> None)"
proof -
  have wf: "wf_client s" by (rule reachable_wf [OF assms])
  have "api_states s (watch_type_url wt) \<noteq> None" if "watchers s p = Some wt" for p wt
    using wf_store(2) [OF wf that] by (auto simp: api_of_def split: option.splits)
  moreover have "watchers s p = Some wt \<and> watch_type_url wt = t \<Longrightarrow> api_states s t = Some a \<Longrightarrow>
      p \<in> set (watches a)" for p wt t a
    using wf_store(2) [OF wf, of p wt] by (auto simp: api_of_def)
  ultimately show ?thesis
    using wf by (auto simp: wf_except_def wf_api_def paused_def)
qed

theorem reachable_well_formed_witness:
  "\<exists>a. api_states watching ''eds'' = Some a \<and> watches a = [7] \<and>
    {p. \<exists>wt. watchers watching p = Some wt \<and> watch_type_url wt = ''eds''} = {7} \<and>
    ''eds'' \<in> set (subscriptions watching) \<and> \<not> paused a \<and> request_queue watching \<noteq> None"
proof -
  have "\<not> (case api_states watching ''eds'' of None \<Rightarrow> True | Some a \<Rightarrow> watches a \<noteq> [7] \<or> \<not> subscribed a)"
    by code_simp
  then obtain a where a: "api_states watching ''eds'' = Some a" "watches a = [7]" "subscribed a"
    by (auto split: option.splits)
  note wf = reachable_well_formed [OF reachable_watching]
  have "set (watches a) = {p. \<exists>wt. watchers watching p = Some wt \<and> watch_type_url wt = ''eds''}"
    "''eds'' \<in> set (subscriptions watching)" "\<not> paused a"
    using wf a(1,3) by blast+
  moreover have "request_queue watching \<noteq> None" using wf watching_run(2) by blast
  ultimately show ?thesis using a by auto
qed

text \<open>
  C6. Every request a public operation puts on the wire asks for what the live watches want at
  that moment: it names exactly the resources of the live watches of its own type, each once,
  and carries no error detail; only a request without resource names may leave its type out.
  The watches that count are those after the operation for an added or destroyed watch, those
  of before for a queued request, a response or a new stream, and for an update first those
  without the watch and then those with its new resources. The request of the chat session,
  alone, ignores the watches and names no resource.
\<close>

theorem requests_ask_for_interest:
  assumes "reachable g w s" and "fresh_op x s"
  shows "if chat_op x
    then \<exists>es. io_log (final (perform g n x s)) = io_log s @ es \<and> (\<forall>r\<in>set (writes_of es). asks_all r)
    else \<exists>ess. io_log (final (perform g n x s)) = io_log s @ concat ess \<and>
      list_all2 (\<lambda>v es. \<forall>r\<in>set (writes_of es). asks_for v r) (view_phases x (watch_view s)) ess"
proof (cases "chat_op x")
  case True
  obtain ops where "runs g w ops s" using reachable_runs [OF assms(1)] by blast
  from runs_asks_all [OF this] chat_ops_asked [OF True, of s g n] True show ?thesis
    by (simp add: asked_all_def)
next
  case False
  from perform_wrote [OF reachable_wf [OF assms(1)] reachable_watched [OF assms(1)] assms(2) this, of g n] False
  show ?thesis by (simp add: wrote_phases_def)
qed

lemma watching_view: "watch_view watching = (watch_view connected)(7 \<mapsto> (''eds'', {''a'', ''b''}))"
  using addWatch_view [OF reachable_wf [OF reachable_connected] watching_run(5,1)] by (simp add: insert_commute)

theorem requests_ask_for_interest_witness:
  "\<exists>es es'. io_log (final (Watcher_update script_rpc 20 7 [''c''] watching)) = io_log watching @ es @ es' \<and>
    map req_resource_names (writes_of (es @ es')) = [[], [''c'']] \<and>
    (\<forall>r\<in>set (writes_of es). asks_for ((watch_view connected)(7 := None)) r) \<and>
    (\<forall>r\<in>set (writes_of es'). asks_for ((watch_view connected)(7 \<mapsto> (''eds'', {''c''}))) r)"
proof -
  let ?s = "final (Watcher_update script_rpc 20 7 [''c''] watching)"
  from requests_ask_for_interest [OF reachable_watching, of "UpdateWatch 7 [''c'']" 20]
  obtain es es' where es: "io_log ?s = io_log watching @ es @ es'"
    "\<forall>r\<in>set (writes_of es). asks_for ((watch_view connected)(7 := None)) r"
    "\<forall>r\<in>set (writes_of es'). asks_for ((watch_view connected)(7 \<mapsto> (''eds'', {''c''}))) r"
    by (auto simp: chat_op_def watching_view list_all2_Cons1)
  have "map req_resource_names (writes_of (drop (length (io_log watching)) (io_log ?s))) = [[], [''c'']]"
    by code_simp
  with es show ?thesis by (intro exI [of _ es] exI [of _ es']) simp
qed

text \<open>
  C7. Head of line: from the moment a request is queued on an idle client until the server
  ends the stream, every request on the wire is of that request's type, for a type that is
  subscribed already or becomes so as the first of its stream. A response of another type is
  not answered before the end of the stream.
\<close>

theorem head_of_line:
  assumes "reachable g w s" and "stream s" and "request_queue s = Some []" and "\<not> shutdown_flag s"
    and "subscribed (api_of s t) \<or> first_stream_request s"
  shows "\<exists>es. io_log (final (queueDiscoveryRequest g n t s)) = io_log s @ es \<and>
    (\<forall>r\<in>set (writes_of (takeWhile (\<lambda>e. e \<noteq> ReadEnd) es)). req_type_url r = t)"
proof (cases n)
  case (Suc k)
  have l: "live {} s" using reachable_wf [OF assms(1)] assms(2) by (simp add: live_def)
  let ?s = "queued_alone t s"
  have push: "pushQueue t (touch t s) = Inr ?s" by (simp add: pushQueue_def assms(3))
  have "front_only (\<lambda>_. False) t ?s (drainRequests g k ?s)"
    by (rule front_only_path(2) [OF live_push [OF push live_touch [OF l]]])
      (use assms(4,5) in \<open>simp add: at_front_def\<close>)
  moreover have "queueDiscoveryRequest g n t s = drainRequests g k ?s"
    using Suc push l wf_not_paused by (auto simp: queueDiscoveryRequest_eq live_def)
  ultimately show ?thesis
    by (auto simp: front_only_def writes_only_def before_end_def)
qed (auto intro: exI [of _ "[]"])

text \<open>
  A server for the instance: each write releases the next batch of messages. On its client
  the endpoint type is watched when a cluster response arrives.
\<close>

definition batch_rpc :: "(discovery_response list \<times> discovery_response list list) sync_rpc" where
  "batch_rpc = \<lparr>rpc_open = (\<lambda>w. (True, w)),
     rpc_write = (\<lambda>q (now, later). (True, (now @ (if later = [] then [] else hd later), tl later))),
     rpc_read = (\<lambda>(now, later). case now of [] \<Rightarrow> (None, (now, later)) | r # rs \<Rightarrow> (Some r, (rs, later))),
     rpc_writes_done = (\<lambda>w. (True, w)), rpc_finish = (\<lambda>w. (True, w))\<rparr>"

definition batch_opened :: "(discovery_response list \<times> discovery_response list list) ads_client" where
  "batch_opened = final (onStreamEstablished batch_rpc 20 (setChannel (AdsClient ([], [[], [], [], [cds_response]]))))"

definition batch_client :: "(discovery_response list \<times> discovery_response list list) ads_client" where
  "batch_client = final (addWatch batch_rpc 20 7 ''eds'' [''a''] 0 batch_opened)"

lemma reachable_batch: "reachable batch_rpc ([], [[], [], [], [cds_response]]) batch_client"
proof -
  let ?w = "([], [[], [], [], [cds_response]])"
  have "\<not> (case onStreamEstablished batch_rpc 20 (setChannel (AdsClient ?w)) of Inl e \<Rightarrow> True | Inr _ \<Rightarrow> False)"
    "\<not> (case addWatch batch_rpc 20 7 ''eds'' [''a''] 0 batch_opened of Inl e \<Rightarrow> True | Inr _ \<Rightarrow> False)"
    "watchers batch_opened 7 = None"
    by code_simp+
  then have "onStreamEstablished batch_rpc 20 (setChannel (AdsClient ?w)) = Inr batch_opened"
    "addWatch batch_rpc 20 7 ''eds'' [''a''] 0 batch_opened = Inr batch_client" "watchers batch_opened 7 = None"
    by (auto simp: batch_opened_def batch_client_def split: sum.splits)
  then show ?thesis
    by (blast intro: reachable.step [OF reachable.step [OF reachable_channel]] client_step.intros)
qed

theorem head_of_line_witness:
  "\<exists>es. io_log (final (queueDiscoveryRequest batch_rpc 20 ''eds'' batch_client)) = io_log batch_client @ es \<and>
    map resp_type_url (reads_of es) = [cluster_type_url] \<and>
    map req_type_url (writes_of (takeWhile (\<lambda>e. e \<noteq> ReadEnd) es)) = [''eds'', ''eds'']"
proof -
  have "stream batch_client" "request_queue batch_client = Some []" "\<not> shutdown_flag batch_client"
    "subscribed (api_of batch_client ''eds'')"
    by code_simp+
  with head_of_line [OF reachable_batch, of "''eds''" 20]
  obtain es where es: "io_log (final (queueDiscoveryRequest batch_rpc 20 ''eds'' batch_client)) = io_log batch_client @ es"
    "\<forall>r\<in>set (writes_of (takeWhile (\<lambda>e. e \<noteq> ReadEnd) es)). req_type_url r = ''eds''" by auto
  let ?es = "drop (length (io_log batch_client)) (io_log (final (queueDiscoveryRequest batch_rpc 20 ''eds'' batch_client)))"
  have "map resp_type_url (reads_of ?es) = [cluster_type_url]"
    "length (writes_of (takeWhile (\<lambda>e. case e of ReadEnd \<Rightarrow> False | _ \<Rightarrow> True) ?es)) = 2"
    by code_simp+
  moreover have "(\<lambda>e. case e of ReadEnd \<Rightarrow> False | _ \<Rightarrow> True) = (\<lambda>e. e \<noteq> ReadEnd)"
    by (auto simp: fun_eq_iff split: io_event.split)
  ultimately have "map resp_type_url (reads_of es) = [cluster_type_url]"
    and len: "length (writes_of (takeWhile (\<lambda>e. e \<noteq> ReadEnd) es)) = 2"
    by (simp_all add: es(1))
  moreover have "map req_type_url (writes_of (takeWhile (\<lambda>e. e \<noteq> ReadEnd) es)) = replicate 2 ''eds''"
    using es(2) len by (intro nth_equalityI) (auto simp: set_conv_nth)
  ultimately show ?thesis using es(1) by (intro exI [of _ es]) (simp add: numeral_2_eq_2)
qed

section \<open>Watches\<close>

text \<open>
  C8. Refinement: the operations of a run, each taken as its own operation on the abstract
  view, compute the view of the client it reaches, whatever the server answered meanwhile:
  adding a watch adds its entry, which was not there, updating replaces the resources of an
  entry that was, destroying removes one, and every other operation changes nothing. So what
  the next request of a type asks for is determined by the operations alone.
\<close>

theorem watches_refine_view:
  assumes "runs g w ops s"
  shows "\<exists>v. view_run ops Map.empty = Some v \<and> watch_view s = v \<and> (\<forall>t. set (names_for s t) = interest v t)"
  using runs_view [OF assms] names_for_interest(1) [OF reachable_wf [OF runs_reachable [OF assms]]] by simp

lemma runs_connected: "runs script_rpc [] [SetChannel, Establish] connected"
  using runs.step [OF runs.step [OF runs.start], of SetChannel "[]" script_rpc 0 _ Establish 20 connected]
    connected_run(1) by simp

lemma runs_watching: "runs script_rpc [] [SetChannel, Establish, AddWatch 7 ''eds'' [''b'', ''a''] 0] watching"
  using runs.step [OF runs_connected, of "AddWatch 7 ''eds'' [''b'', ''a''] 0" 20 watching] watching_run(1,5) by simp

theorem watches_refine_view_witness:
  "\<exists>s s'. runs script_rpc [] [SetChannel, Establish, AddWatch 7 ''eds'' [''b'', ''a''] 0, UpdateWatch 7 [''c'']] s \<and>
    watch_view s = [7 \<mapsto> (''eds'', {''c''})] \<and> set (names_for s ''eds'') = {''c''} \<and>
    runs script_rpc [] [SetChannel, Establish, AddWatch 7 ''eds'' [''b'', ''a''] 0, DestroyWatch 7] s' \<and>
    watch_view s' = Map.empty"
proof -
  have "\<not> (case Watcher_update script_rpc 20 7 [''c''] watching of Inl e \<Rightarrow> True | Inr _ \<Rightarrow> False)"
    "\<not> (case Watcher_destroy script_rpc 20 7 watching of Inl e \<Rightarrow> True | Inr _ \<Rightarrow> False)"
    by code_simp+
  then obtain s s' where "Watcher_update script_rpc 20 7 [''c''] watching = Inr s"
    "Watcher_destroy script_rpc 20 7 watching = Inr s'"
    by (auto split: sum.splits)
  with runs.step [OF runs_watching, of "UpdateWatch 7 [''c'']" 20 s] runs.step [OF runs_watching, of "DestroyWatch 7" 20 s']
  have r: "runs script_rpc [] [SetChannel, Establish, AddWatch 7 ''eds'' [''b'', ''a''] 0, UpdateWatch 7 [''c'']] s"
    "runs script_rpc [] [SetChannel, Establish, AddWatch 7 ''eds'' [''b'', ''a''] 0, DestroyWatch 7] s'"
    by simp_all
  with watches_refine_view [OF r(1)] watches_refine_view [OF r(2)] show ?thesis
    by (intro exI [of _ s] exI [of _ s']) (auto simp: interest_def)
qed

text \<open>
  C9. \<^verbatim>\<open>addWatch\<close> that returns has added its watcher to the view, put it at the front of its
  type's list, subscribed the type, and left it to later requests to ask for the new watch's
  resources first, in ascending order, and then for the names asked for before.
\<close>

theorem addWatch_effect:
  assumes "reachable g w s" and "watchers s p = None" and "addWatch g n p t rs dec s = Inr s'"
  shows "watch_view s' = (watch_view s)(p \<mapsto> (t, set rs)) \<and>
    watches (api_of s' t) = p # watches (api_of s t) \<and>
    (\<forall>u. u \<noteq> t \<longrightarrow> watches (api_of s' u) = watches (api_of s u)) \<and>
    subscribed (api_of s' t) \<and> t \<in> set (subscriptions s') \<and>
    names_for s' t = dedup (sorted_list_of_set (set rs) @ names_for s t)"
proof -
  have wf: "wf_client s" by (rule reachable_wf [OF assms(1)])
  obtain s1 where s1: "Watcher p rs dec t s = Inr s1" "wf_client s1"
    "path_rel {} (subscribeOnce t s1) s'" "wf_client s'"
    by (rule addWatch_wf [OF wf assms(2,3)])
  have q: "queueDiscoveryRequest g n t (subscribeOnce t s1) = Inr s'"
    using assms(3) s1(1) by (simp add: addWatch_def)
  have same: "same_watches s1 s'"
    by (rule same_watches_trans [OF wf_subscribeOnce(2) [OF s1(2)] path_wf(2) [OF wf_subscribeOnce(1) [OF s1(2)] s1(3)]])
  have w1: "watches (api_of s1 t) = p # watches (api_of s t)"
    "\<forall>u. u \<noteq> t \<longrightarrow> watches (api_of s1 u) = watches (api_of s u)"
    "watchers s1 = (watchers s)(p \<mapsto> \<lparr>watch_resources = std_set_of rs, watch_type_url = t, watch_decoder = dec\<rparr>)"
    using s1(1) by (auto simp: Watcher_def updateResources_def apiStateFor_eq api_of_def modifyApi_eq touch_def)
  have sub: "subscribed (api_of s' t)"
    using grows_path(1) [OF q] by (auto simp: grows_def subscribeOnce_def apiStateFor_eq)
  have "p \<notin> set (watches (api_of s t))"
    using wf_watches_live [OF wf, of t] assms(2) by (auto simp: watches_live_def)
  then have "watched_names (watchers s1) (watches (api_of s1 t)) =
      std_set_of rs @ watched_names (watchers s) (watches (api_of s t))"
    unfolding watched_names_def w1 by (auto intro!: arg_cong [where f = concat])
  then have "names_for s' t = dedup (std_set_of rs @ names_for s t)"
    unfolding names_for_same [OF same] by (simp add: names_for_def dedup_append)
  then show ?thesis
    using addWatch_view [OF wf assms(2,3)] w1 same sub wf_api_of [OF s1(4), of t]
    by (simp add: same_watches_def wf_api_def std_set_of_def sset.iterate_insert_all)
qed

theorem addWatch_effect_witness:
  "watch_view watching = (watch_view connected)(7 \<mapsto> (''eds'', {''a'', ''b''})) \<and>
   watches (api_of watching ''eds'') = 7 # watches (api_of connected ''eds'') \<and>
   subscribed (api_of watching ''eds'') \<and> ''eds'' \<in> set (subscriptions watching) \<and>
   names_for watching ''eds'' = dedup (sorted_list_of_set {''a'', ''b''} @ names_for connected ''eds'')"
  using addWatch_effect [OF reachable_connected watching_run(5,1)] by (simp add: insert_commute)

text \<open>
  C10. \<^verbatim>\<open>Watcher::update\<close> that returns had a live watcher, keeps its type, replaces its
  resources, and moves it to the front of its type's list; no other watcher changes.
\<close>

theorem Watcher_update_effect:
  assumes "reachable g w s" and "Watcher_update g n p rs s = Inr s'"
  shows "\<exists>t R. watch_view s p = Some (t, R) \<and> watch_view s' = (watch_view s)(p \<mapsto> (t, set rs)) \<and>
    watches (api_of s' t) = p # remove1 p (watches (api_of s t)) \<and>
    (\<forall>u. u \<noteq> t \<longrightarrow> watches (api_of s' u) = watches (api_of s u))"
proof -
  have wf: "wf_client s" by (rule reachable_wf [OF assms(1)])
  obtain wt s1 s2 where u: "watchers s p = Some wt" "same_watches (eraseWatch p wt s) s1"
    "updateResources p rs s1 = Inr s2" "wf_client s2" "path_rel {} s2 s'"
    by (rule Watcher_update_wf [OF wf assms(2)])
  have p1: "watchers s1 p = Some wt" using u(1,2) by (simp add: same_watches_def eraseWatch_def)
  have "watches (api_of s2 t) = (if t = watch_type_url wt then p # watches (api_of s1 t) else watches (api_of s1 t))" for t
    using u(3) p1 by (auto simp: updateResources_def api_of_def modifyApi_eq)
  moreover have "watches (api_of s1 t) = (if t = watch_type_url wt then remove1 p (watches (api_of s t))
      else watches (api_of s t))" for t
    using u(2) by (simp add: same_watches_def eraseWatch_def)
  moreover have "watches (api_of s' t) = watches (api_of s2 t)" for t
    using path_wf(2) [OF u(4,5)] by (simp add: same_watches_def)
  moreover have "watch_view s p = Some (watch_type_url wt, set (watch_resources wt))"
    by (simp add: watch_view_def u(1))
  ultimately show ?thesis using Watcher_update_view [OF wf assms(2)] by auto
qed

theorem Watcher_update_effect_witness:
  "\<exists>s' t R. Watcher_update script_rpc 20 7 [''c''] watching = Inr s' \<and> watch_view watching 7 = Some (t, R) \<and>
    watch_view s' = (watch_view watching)(7 \<mapsto> (t, {''c''})) \<and>
    watches (api_of s' t) = 7 # remove1 7 (watches (api_of watching t))"
proof -
  have "\<not> (case Watcher_update script_rpc 20 7 [''c''] watching of Inl e \<Rightarrow> True | Inr _ \<Rightarrow> False)"
    by code_simp
  then obtain s' where s': "Watcher_update script_rpc 20 7 [''c''] watching = Inr s'"
    by (cases "Watcher_update script_rpc 20 7 [''c''] watching") simp_all
  with Watcher_update_effect [OF reachable_watching s'] show ?thesis by auto
qed

text \<open>
  C11. \<^verbatim>\<open>~Watcher\<close> that returns removes its watcher from the view and from its type's list,
  and nothing else: later requests of the type no longer ask for resources only it wanted.
\<close>

theorem Watcher_destroy_effect:
  assumes "reachable g w s" and "Watcher_destroy g n p s = Inr s'"
  shows "watch_view s p \<noteq> None \<and> watch_view s' = (watch_view s)(p := None) \<and>
    (\<forall>t. watches (api_of s' t) = remove1 p (watches (api_of s t)) \<and>
      set (names_for s' t) = interest ((watch_view s)(p := None)) t)"
proof -
  have wf: "wf_client s" by (rule reachable_wf [OF assms(1)])
  obtain wt s1 where d: "watchers s p = Some wt" "same_watches (eraseWatch p wt s) s1"
    "s' = s1\<lparr>watchers := (watchers s1)(p := None)\<rparr>" "wf_client s'"
    by (rule Watcher_destroy_wf [OF wf assms(2)])
  have "watches (api_of s' t) = remove1 p (watches (api_of s t))" for t
  proof -
    have "watches (api_of s' t) = watches (api_of (eraseWatch p wt s) t)"
      using d(2,3) by (simp add: same_watches_def api_of_def)
    moreover have "p \<notin> set (watches (api_of s t))" if "t \<noteq> watch_type_url wt"
      using wf_list_member [OF wf, of p t] d(1) that by auto
    ultimately show ?thesis by (simp add: eraseWatch_def remove1_idem)
  qed
  then show ?thesis
    using Watcher_destroy_view [OF wf assms(2)] names_for_interest(1) [OF d(4)] by auto
qed

theorem Watcher_destroy_effect_witness:
  "\<exists>s'. Watcher_destroy script_rpc 20 7 watching = Inr s' \<and> watch_view watching 7 \<noteq> None \<and>
    watch_view s' = (watch_view watching)(7 := None)"
proof -
  have "\<not> (case Watcher_destroy script_rpc 20 7 watching of Inl e \<Rightarrow> True | Inr _ \<Rightarrow> False)"
    by code_simp
  then obtain s' where s': "Watcher_destroy script_rpc 20 7 watching = Inr s'"
    by (cases "Watcher_destroy script_rpc 20 7 watching") simp_all
  with Watcher_destroy_effect [OF reachable_watching s'] show ?thesis by auto
qed

section \<open>What the server sees of versions, nonces and nodes\<close>

text \<open>
  C12. A reconnect that returns has put exactly one request per entry of the subscription
  list on the wire, in the order of the list as it is at the end, each naming its type.
\<close>

theorem reconnect_requests:
  assumes "reachable g w s" and "\<not> shutdown_flag s" and "fst (rpc_open g (net s))"
    and "onStreamEstablished g n s = Inr s'"
  shows "\<exists>es ts. io_log s' = io_log s @ Opened True # es \<and>
    map req_type_url (writes_of es) = subscriptions s' \<and> subscriptions s' = subscriptions s @ ts"
  using established_requests [OF reachable_wf [OF assms(1)] reachable_tracked [OF assms(1)] assms(2-4)]
    grows_established [OF assms(4)] by (auto simp: grows_def)

theorem reconnect_requests_witness:
  "\<exists>s' es ts. onStreamEstablished script_rpc 20 watching = Inr s' \<and>
    io_log s' = io_log watching @ Opened True # es \<and> map req_type_url (writes_of es) = subscriptions s' \<and>
    subscriptions s' = subscriptions watching @ ts"
proof -
  have "\<not> (case onStreamEstablished script_rpc 20 watching of Inl e \<Rightarrow> True | Inr _ \<Rightarrow> False)"
    by code_simp
  then obtain s' where s': "onStreamEstablished script_rpc 20 watching = Inr s'"
    by (cases "onStreamEstablished script_rpc 20 watching") simp_all
  with reconnect_requests [OF reachable_watching watching_run(6) _ s'] show ?thesis
    by (auto simp: rpc_simps)
qed

text \<open>
  C13. A type that is watched never acknowledges: whatever responses arrive, its requests go
  on reporting the version it had, as nothing stores the version of a response for it.
\<close>

theorem watched_type_never_acks:
  assumes "reachable g w s" and "t \<noteq> []" and "watches (api_of s t) \<noteq> []"
    and "req_version_info (request (api_of s t)) = v"
  shows "\<forall>c\<in>{queueDiscoveryRequest g n u s, onDiscoveryResponse g n m s, sendDiscoveryRequest g n u s}.
    req_version_info (request (api_of (final c) t)) = v \<and>
    (\<exists>es. io_log (final c) = io_log s @ es \<and>
      (\<forall>r\<in>set (writes_of es). req_type_url r = t \<longrightarrow> req_version_info r = v))"
proof
  fix c
  assume "c \<in> {queueDiscoveryRequest g n u s, onDiscoveryResponse g n m s, sendDiscoveryRequest g n u s}"
  then have "template_rel t (watched_at v) (\<lambda>r. req_version_info r = v) {} s (final c)"
    using watched_path [OF assms(2), where s = s and v = v and g = g and n = n and P = "{}"] by auto
  with reachable_wf [OF assms(1)] assms(3,4) show "req_version_info (request (api_of (final c) t)) = v \<and>
      (\<exists>es. io_log (final c) = io_log s @ es \<and>
        (\<forall>r\<in>set (writes_of es). req_type_url r = t \<longrightarrow> req_version_info r = v))"
    by (simp add: template_rel_def watched_at_def)
qed

definition eds_response :: discovery_response where
  "eds_response = empty_response\<lparr>resp_version_info := ''2'', resp_resources := [empty_any],
     resp_type_url := ''eds'', resp_nonce := ''n2''\<rparr>"

theorem watched_type_never_acks_witness:
  "req_version_info (request (api_of (final (onDiscoveryResponse script_rpc 20 eds_response watching)) ''eds'')) = [] \<and>
   (\<exists>es. io_log (final (onDiscoveryResponse script_rpc 20 eds_response watching)) = io_log watching @ es \<and>
     (\<forall>r\<in>set (writes_of es). req_type_url r = ''eds'' \<longrightarrow> req_version_info r = []))"
proof -
  have "watches (api_of watching ''eds'') = [7]" "req_version_info (request (api_of watching ''eds'')) = []"
    by code_simp+
  with watched_type_never_acks [OF reachable_watching, of "''eds''" "[]" 20 _ eds_response] show ?thesis
    by simp
qed

text \<open>
  C14. A subscribed type whose template has lost its node never sends one again, not even in
  the first request on a new stream.
\<close>

theorem node_never_returns:
  assumes "reachable g w s" and "t \<noteq> []" and "subscribed (api_of s t)"
    and "req_node (request (api_of s t)) = None"
  shows "\<forall>c\<in>{queueDiscoveryRequest g n u s, onDiscoveryResponse g n m s, onStreamEstablished g n s}.
    req_node (request (api_of (final c) t)) = None \<and>
    (\<exists>es. io_log (final c) = io_log s @ es \<and>
      (\<forall>r\<in>set (writes_of es). req_type_url r = t \<longrightarrow> req_node r = None))"
proof -
  have wf: "wf_client s" by (rule reachable_wf [OF assms(1)])
  define good where "good s' \<longleftrightarrow> req_node (request (api_of s' t)) = None \<and>
    (\<exists>es. io_log s' = io_log s @ es \<and> (\<forall>r\<in>set (writes_of es). req_type_url r = t \<longrightarrow> req_node r = None))"
    for s' :: "'a ads_client"
  have path: "template_rel t nodeless (\<lambda>r. req_node r = None) {} s s' \<Longrightarrow> good s'" for s'
    using wf assms(3,4) by (simp add: template_rel_def nodeless_def good_def)
  have "good (final (onStreamEstablished g n s))"
  proof -
    let ?s = "established (snd (rpc_open g (net s))) s"
    have "good (final (requeueFrom g n 0 ?s))"
      using nodeless_requeue [OF assms(2), of "{}" ?s g n 0] wf_established [OF wf] assms(3,4)
      by (fastforce simp: template_rel_def nodeless_def good_def)
    then show ?thesis using assms(4) by (simp add: onStreamEstablished_eq good_def api_of_def)
  qed
  then show ?thesis
    using path nodeless_path(1,5) [OF assms(2), where s = s and g = g and n = n and P = "{}"]
    by (simp add: good_def)
qed

theorem node_never_returns_witness:
  "req_node (request (api_of (final (onStreamEstablished script_rpc 20 watching)) ''eds'')) = None \<and>
   (\<exists>es. io_log (final (onStreamEstablished script_rpc 20 watching)) = io_log watching @ es \<and>
     (\<forall>r\<in>set (writes_of es). req_type_url r = ''eds'' \<longrightarrow> req_node r = None))"
proof -
  have "subscribed (api_of watching ''eds'')" "req_node (request (api_of watching ''eds'')) = None"
    by code_simp+
  with node_never_returns [OF reachable_watching, of "''eds''" 20] show ?thesis by simp
qed

text \<open>
  C15. A response that neither finds a watch nor brings a resource is accepted silently: it
  stores its version and nonce in the template of its type, and touches no other type, no
  watch, no queue and no wire. A response of a type without state changes nothing at all.
\<close>

theorem quiet_response_recorded:
  assumes "quiet s m" and "0 < n"
  shows "\<exists>s'. onDiscoveryResponse g n m s = Inr s' \<and> io_log s' = io_log s \<and> net s' = net s \<and>
    request_queue s' = request_queue s \<and> same_watches s s' \<and>
    (if api_states s (resp_type_url m) = None then s' = s
     else api_of s' (resp_type_url m) = modifyRequest (\<lambda>r. r\<lparr>req_version_info := resp_version_info m,
         req_response_nonce := resp_nonce m\<rparr>) (api_of s (resp_type_url m)) \<and>
       (\<forall>u. u \<noteq> resp_type_url m \<longrightarrow> api_states s' u = api_states s u))"
proof -
  obtain k where k: "n = Suc k" using assms(2) by (cases n) auto
  show ?thesis
  proof (cases "api_states s (resp_type_url m) = None")
    case True
    then show ?thesis by (simp add: k onDiscoveryResponse_eq same_watches_def)
  next
    case False
    then have nw: "\<not> wants_request m s" using assms(1) by (auto simp: quiet_def)
    then have "onDiscoveryResponse g n m s = Inr (recordResponse m s)"
      using False by (auto simp: k onDiscoveryResponse_eq)
    with False nw show ?thesis
      by (simp add: same_watches_recordResponse)
        (auto simp: recordResponse_def wants_request_def Let_def modifyRequest_def)
  qed
qed

theorem quiet_response_recorded_witness:
  "\<exists>s'. onDiscoveryResponse script_rpc 1 (cds_response\<lparr>resp_resources := []\<rparr>) connected = Inr s' \<and>
    req_version_info (request (api_of s' cluster_type_url)) = ''1'' \<and>
    req_response_nonce (request (api_of s' cluster_type_url)) = ''n1''"
proof -
  let ?m = "cds_response\<lparr>resp_resources := []\<rparr>"
  have "\<not> (case api_states connected cluster_type_url of None \<Rightarrow> True | Some a \<Rightarrow> watches a \<noteq> [])"
    by code_simp
  then have known: "api_states connected cluster_type_url \<noteq> None" "watches (api_of connected cluster_type_url) = []"
    by (auto simp: api_of_def split: option.splits)
  have m: "resp_type_url ?m = cluster_type_url" "resp_version_info ?m = ''1''" "resp_nonce ?m = ''n1''"
    by (simp_all add: cds_response_def)
  have "quiet connected ?m" using known(2) m by (simp add: quiet_def wants_request_def)
  from quiet_response_recorded [OF this, of 1 script_rpc] known(1) show ?thesis
    unfolding m by (auto simp: modifyRequest_def)
qed

section \<open>Sessions\<close>

text \<open>
  C16. After the shutdown the client is silent: a request for any type returns without a
  read or a write on the stream, and empties the queue.
\<close>

theorem shutdown_is_silent:
  assumes "reachable g w s" and "shutdown_flag s" and "stream s" and "queue_length s + 4 \<le> n"
  shows "\<exists>s'. queueDiscoveryRequest g n t s = Inr s' \<and> io_log s' = io_log s \<and> net s' = net s \<and>
    request_queue s' = Some [] \<and> same_watches s s'"
proof -
  have wf: "wf_client s" by (rule reachable_wf [OF assms(1)])
  obtain q where "request_queue s = Some q" using wf_queue [OF wf assms(3)] by auto
  with queue_silent [OF assms(2,3) this wf_not_paused [OF wf], of n g t] assms(4) show ?thesis
    by (simp add: queue_length_def same_watches_def)
qed

theorem shutdown_is_silent_witness:
  "\<exists>s s'. shutdown script_rpc connected = Inr s \<and> queueDiscoveryRequest script_rpc 4 ''t'' s = Inr s' \<and>
    io_log s' = io_log s"
proof -
  obtain s where s: "shutdown script_rpc connected = Inr s" "shutdown_flag s" "stream s" "request_queue s = Some []"
    using shutdown_eq [OF connected_run(2), of script_rpc] connected_run(2,3) by auto
  have "reachable script_rpc [] s"
    by (rule reachable.step [OF reachable_connected client_step.stop [OF s(1)]])
  from shutdown_is_silent [OF this s(2,3), of 4] s show ?thesis by (auto simp: queue_length_def)
qed

text \<open>
  C17. The chat session against a server that ends its stream: the initial request, then
  every response answered at once by the same request with the response's version and nonce,
  in order, up to the end of the stream, whatever its resources hold; the result is true when
  a response came (or the flag was set before). A further session on the same client does not
  open like the first: its node's id and cluster have the fixed names appended once more, and
  it carries the nonce of the last response of the stream before.
\<close>

theorem chat_answers_every_response:
  assumes "finite_stream g m" and "stream s" and "m (net s) < n"
  shows "\<exists>s' ms. AggregatedDiscoveryService g n s = Inr s' \<and>
    io_log s' = io_log s @ Wrote (chat_request s) #
      concat (map (\<lambda>x. [ReadMsg x, Wrote ((chat_request s)\<lparr>req_version_info := resp_version_info x,
        req_response_nonce := resp_nonce x\<rparr>)]) ms) @ [ReadEnd] \<and>
    isOk s' = (isOk s \<or> ms \<noteq> []) \<and> req_type_url (chat_request s) = cluster_type_url \<and>
    node_id (mutable_node (chat_request s')) = node_id (mutable_node (chat_request s)) @ ''test-id'' \<and>
    node_cluster (mutable_node (chat_request s')) = node_cluster (mutable_node (chat_request s)) @ ''test-cluster'' \<and>
    req_version_info (chat_request s') = [] \<and>
    req_response_nonce (chat_request s') =
      (if ms = [] then req_response_nonce (chat_request s) else resp_nonce (last ms))"
proof -
  obtain ms s' where "AggregatedDiscoveryService g n s = Inr s'"
    "io_log s' = io_log s @ Wrote (chat_request s) # chat_turns (chat_request s) ms @ [ReadEnd]"
    "isOk s' = (isOk s \<or> ms \<noteq> [])"
    and "discoveryRequest s' = chat_left (chat_request s) ms"
    using chat_session [OF assms] by blast
  with chat_again [OF this(4)] show ?thesis
    by (intro exI [of _ s'] exI [of _ ms]) (simp add: chat_turns_def chat_ack_def chat_request_def [of s] Let_def)
qed

theorem chat_answers_every_response_witness:
  "\<exists>s' ms. AggregatedDiscoveryService script_rpc 2 (open_client [cds_response]) = Inr s' \<and>
    io_log s' = io_log (open_client [cds_response]) @ Wrote (chat_request (open_client [cds_response])) #
      concat (map (\<lambda>x. [ReadMsg x, Wrote ((chat_request (open_client [cds_response]))
        \<lparr>req_version_info := resp_version_info x, req_response_nonce := resp_nonce x\<rparr>)]) ms) @ [ReadEnd] \<and>
    node_id (mutable_node (chat_request s')) = ''test-idtest-id''"
proof -
  have "node_id (mutable_node (chat_request (open_client [cds_response]))) = ''test-id''" by code_simp
  with chat_answers_every_response [OF script_rpc_finite, of "open_client [cds_response]" 2] show ?thesis
    by (auto simp: open_client_facts)
qed

text \<open>
  C18. Without a stream: a request is dropped and the client unchanged, and the program
  whose stream cannot be opened ends in its shutdown at the null stream.
\<close>

theorem no_stream_no_request:
  "(\<not> stream s \<longrightarrow> queueDiscoveryRequest g (Suc n) t s = Inr s \<and> shutdown g s = Inl (NullStream, s)) \<and>
   (\<not> fst (rpc_open g w) \<longrightarrow> (\<exists>s'. main_ads g n w = Inl (NullStream, s') \<and> io_log s' = [Opened False]))"
  by (auto simp: queueDiscoveryRequest_eq shutdown_def endStream_def halt_def main_ads_def build_def Let_def
      onStreamEstablished_eq setChannel_def AdsClient_def)

definition down_rpc :: "unit sync_rpc" where
  "down_rpc = \<lparr>rpc_open = (\<lambda>w. (False, w)), rpc_write = (\<lambda>q w. (False, w)), rpc_read = (\<lambda>w. (None, w)),
     rpc_writes_done = (\<lambda>w. (False, w)), rpc_finish = (\<lambda>w. (False, w))\<rparr>"

theorem no_stream_no_request_witness:
  "queueDiscoveryRequest down_rpc 1 ''t'' (AdsClient ()) = Inr (AdsClient ()) \<and>
   (\<exists>s'. main_ads down_rpc 5 () = Inl (NullStream, s') \<and> io_log s' = [Opened False])"
  using no_stream_no_request [of "AdsClient ()" down_rpc 0 "''t''" "()"]
    no_stream_no_request [of "AdsClient ()" down_rpc 5 "''t''" "()"]
  by (simp add: AdsClient_facts down_rpc_def)

end
