(* ===== verification/Update_Loop.thy ===== *)
theory Update_Loop
  imports Ads_Session
begin

text \<open>
  The client against a control plane that keeps sending an update until the client reports
  the update's version. Such a server never ends its stream, so the bounds on fuel of
  \<^verbatim>\<open>Request_Queue\<close> do not apply; a response is handled inside the read loop of the request it
  answers, so every turn of the exchange is a level of recursion.
\<close>

section \<open>The server\<close>

text \<open>
  In the transport states \<open>up\<close>, a request of type \<open>t\<close> that does not report version \<open>v\<close> is
  answered with the resources of version \<open>v\<close>, and the transport is again in such a state.
\<close>

definition insistent ::
    "'w sync_rpc \<Rightarrow> ('w \<Rightarrow> bool) \<Rightarrow> string \<Rightarrow> string \<Rightarrow> bool" where
  "insistent g up t v \<longleftrightarrow> (\<forall>w q. up w \<longrightarrow> req_type_url q = t \<longrightarrow> req_version_info q \<noteq> v \<longrightarrow>
     (\<exists>m w'. rpc_read g (snd (rpc_write g q w)) = (Some m, w') \<and> up w' \<and>
       resp_type_url m = t \<and> resp_version_info m = v \<and> resp_resources m \<noteq> []))"

lemma insistentE:
  assumes "insistent g up t v" and "up w" and "req_type_url q = t" and "req_version_info q \<noteq> v"
  obtains m w' where "rpc_read g (snd (rpc_write g q w)) = (Some m, w')" and "up w'"
    and "resp_type_url m = t" and "resp_resources m \<noteq> []"
  using assms unfolding insistent_def by blast

section \<open>One turn of the exchange\<close>

text \<open>The type at the front of the queue is \<open>t\<close>, and its next request names it and reports \<open>x\<close>.\<close>

definition pushed :: "address set \<Rightarrow> ('w \<Rightarrow> bool) \<Rightarrow> string \<Rightarrow> string \<Rightarrow> 'w ads_client \<Rightarrow> bool" where
  "pushed P up t x s \<longleftrightarrow> live P s \<and> \<not> shutdown_flag s \<and> up (net s) \<and>
     (\<exists>q. request_queue s = Some (t # q)) \<and> req_version_info (request (api_of s t)) = x \<and>
     (subscribed (api_of s t) \<or> first_stream_request s)"

lemma live_api: "live P s \<Longrightarrow> wf_api s t (api_of s t)"
  using wf_api_of [of P s t] by (simp add: live_def)

lemma next_request_of_type:
  assumes "live P s" and "subscribed (api_of s t) \<or> first_stream_request s"
  shows "req_type_url (next_request s t) = t"
  using assms(2) live_api [OF assms(1), of t]
  by (auto simp: next_request_def attach_def Let_def wf_api_def)

lemma next_request_version [simp]:
  "req_version_info (next_request s t) = req_version_info (request (api_of s t))"
  by (simp add: next_request_def)

lemma record_loud:
  assumes "resp_resources m \<noteq> []"
  shows "req_version_info (request (api_of (recordResponse m s) u)) = req_version_info (request (api_of s u))"
    and "subscribed (api_of (recordResponse m s) u) = subscribed (api_of s u)"
  using assms by (simp_all add: recordResponse_def Let_def)

text \<open>The state in which the response to the request at the front is drained in its turn.\<close>

definition turned :: "'w sync_rpc \<Rightarrow> string \<Rightarrow> discovery_response \<Rightarrow> 'w \<Rightarrow> 'w ads_client \<Rightarrow> 'w ads_client" where
  "turned g t m w s = (let s1 = touch t (recordResponse m (logRead (Some m) w (sent g t s)))
     in s1\<lparr>request_queue := map_option (\<lambda>q. q @ [t]) (request_queue s1)\<rparr>)"

lemma turned_frame [simp]:
  "io_log (turned g t m w s) = io_log s @ [Wrote (next_request s t), ReadMsg m]"
  "net (turned g t m w s) = w" "shutdown_flag (turned g t m w s) = shutdown_flag s"
  "request_queue (turned g t m w s) = map_option (\<lambda>q. q @ [t]) (request_queue s)"
  by (simp_all add: turned_def Let_def)

lemma live_answered:
  assumes "live P s" and "resp_type_url m = t"
  shows "api_states (logRead (Some m) w (sent g t s)) t \<noteq> None"
    and "live P (recordResponse m (logRead (Some m) w (sent g t s)))"
proof -
  have "t \<in> dom (api_states (sent g t s))" by simp
  from this [unfolded domIff] show known: "api_states (logRead (Some m) w (sent g t s)) t \<noteq> None" by simp
  show "live P (recordResponse m (logRead (Some m) w (sent g t s)))"
    by (rule live_record [OF live_logRead [OF live_sent [OF assms(1)]]]) (use known assms(2) in simp)
qed

lemma pushed_turned:
  assumes p: "pushed P up t x s" and w: "up w" and m: "resp_resources m \<noteq> []" "resp_type_url m = t"
  shows "pushed P up t x (turned g t m w s)"
proof -
  let ?s = "touch t (recordResponse m (logRead (Some m) w (sent g t s)))"
  from p obtain q where q: "request_queue s = Some (t # q)" and l: "live P s"
    and rest: "\<not> shutdown_flag s" "req_version_info (request (api_of s t)) = x"
      "subscribed (api_of s t) \<or> first_stream_request s"
    by (auto simp: pushed_def)
  have "pushQueue t ?s = Inr (turned g t m w s)" by (simp add: pushQueue_def q turned_def Let_def)
  then have "live P (turned g t m w s)"
    by (rule live_push [OF _ live_touch [OF live_answered(2) [OF l m(2)]]])
  moreover have "api_of (turned g t m w s) t = api_of (recordResponse m (logRead (Some m) w (sent g t s))) t"
    by (simp add: turned_def Let_def)
  moreover have "subscribed (api_of (sent g t s) t)"
    using rest(3) by (auto simp: attach_def Let_def)
  ultimately show ?thesis
    using rest(1,2) q w by (simp add: pushed_def record_loud [OF m(1)])
qed

text \<open>
  Five calls make a turn: the drain loop, the transmission, the read, the handler of the
  response and the request it queues. The drain loop inside sees the same front.
\<close>

lemma turn:
  assumes ins: "insistent g up t v" and p: "pushed P up t x s" and x: "x \<noteq> v"
  obtains m w where "up w" and "resp_resources m \<noteq> []" and "resp_type_url m = t"
    and "\<And>n. drainRequests g (Suc n) s = bind_res (sendDiscoveryRequest g n t s)
      (\<lambda>s1. bind_res (popQueue s1) (drainRequests g n))"
    and "\<And>n. sendDiscoveryRequest g (Suc n) t s = readResponses g n (sent g t s)"
    and "\<And>n. readResponses g (Suc n) (sent g t s) =
      bind_res (onDiscoveryResponse g n m (logRead (Some m) w (sent g t s))) (readResponses g n)"
    and "\<And>n. onDiscoveryResponse g (Suc n) m (logRead (Some m) w (sent g t s)) =
      queueDiscoveryRequest g n t (recordResponse m (logRead (Some m) w (sent g t s)))"
    and "\<And>n. queueDiscoveryRequest g (Suc n) t (recordResponse m (logRead (Some m) w (sent g t s))) =
      drainRequests g n (turned g t m w s)"
proof -
  from p obtain q where q: "request_queue s = Some (t # q)" and l: "live P s"
    and rest: "\<not> shutdown_flag s" "req_version_info (request (api_of s t)) = x" "up (net s)"
      "subscribed (api_of s t) \<or> first_stream_request s"
    by (auto simp: pushed_def)
  obtain m w where r: "rpc_read g (net (sent g t s)) = (Some m, w)" and up: "up w"
    and m: "resp_type_url m = t" "resp_resources m \<noteq> []"
    using insistentE [OF ins rest(3) next_request_of_type [OF l rest(4)]] rest(2) x by auto
  let ?r = "recordResponse m (logRead (Some m) w (sent g t s))"
  note known = live_answered [OF l m(1), of w g]
  then have np: "\<not> paused (api_of ?r t)" and st: "stream ?r"
    using wf_not_paused [of P ?r t] by (auto simp: live_def)
  show ?thesis
  proof (rule that [OF up m(2,1)])
    show "onDiscoveryResponse g (Suc n) m (logRead (Some m) w (sent g t s)) = queueDiscoveryRequest g n t ?r" for n
      using known(1) m by (auto simp: onDiscoveryResponse_eq wants_request_def)
    show "queueDiscoveryRequest g (Suc n) t ?r = drainRequests g n (turned g t m w s)" for n
      using np st q by (simp add: queueDiscoveryRequest_eq pushQueue_def turned_def Let_def)
  qed (use q r send_eq [OF l rest(1)] in simp_all)
qed

section \<open>Endless recursion\<close>

text \<open>
  Whatever the fuel, the drain loop uses it up; the requests written and the length of the
  queue grow with it.
\<close>

definition exhausts :: "nat \<Rightarrow> nat \<Rightarrow> string \<Rightarrow> string \<Rightarrow> 'w ads_client \<Rightarrow> 'w ads_client call \<Rightarrow> bool" where
  "exhausts k d t x s r \<longleftrightarrow> (\<exists>s' qs. r = Inl (OutOfFuel, s') \<and>
     writes_of (io_log s') = writes_of (io_log s) @ qs \<and> length qs = k \<and>
     (\<forall>q\<in>set qs. req_type_url q = t \<and> req_version_info q = x) \<and>
     queue_length s' = queue_length s + d)"

lemma exhausts_bind: "exhausts k d t x s r \<Longrightarrow> exhausts k d t x s (bind_res r f)"
  by (auto simp: exhausts_def)

lemma exhausts_here: "exhausts 0 0 t x s (halt OutOfFuel s)"
  by (simp add: exhausts_def halt_def)

lemma exhausts_written:
  assumes "exhausts k d t x s1 r" and "writes_of (io_log s1) = writes_of (io_log s) @ [q]"
    and "req_type_url q = t" and "req_version_info q = x" and "queue_length s1 = queue_length s + j"
  shows "exhausts (Suc k) (d + j) t x s r"
  using assms unfolding exhausts_def by fastforce

text \<open>A request that is written, after which \<open>j\<close> more fuel would be needed for the response.\<close>

lemma exhausts_sent:
  assumes "pushed P up t x s" and "writes_of (io_log s1) = writes_of (io_log (sent g t s))"
    and "request_queue s1 = request_queue s"
  shows "exhausts (Suc 0) 0 t x s (halt OutOfFuel s1)"
  using assms next_request_of_type [of P s t]
  by (auto simp: exhausts_def halt_def pushed_def queue_length_def)

lemma drain_exhausts:
  assumes ins: "insistent g up t v" and x: "x \<noteq> v"
  shows "pushed P up t x s \<Longrightarrow> exhausts ((n + 3) div 5) (n div 5) t x s (drainRequests g n s)"
proof (induction n arbitrary: s rule: less_induct)
  case (less n)
  obtain m w where mw: "up w" "resp_resources m \<noteq> []" "resp_type_url m = t"
    and eqs: "\<And>n. drainRequests g (Suc n) s = bind_res (sendDiscoveryRequest g n t s)
        (\<lambda>s1. bind_res (popQueue s1) (drainRequests g n))"
      "\<And>n. sendDiscoveryRequest g (Suc n) t s = readResponses g n (sent g t s)"
      "\<And>n. readResponses g (Suc n) (sent g t s) =
        bind_res (onDiscoveryResponse g n m (logRead (Some m) w (sent g t s))) (readResponses g n)"
      "\<And>n. onDiscoveryResponse g (Suc n) m (logRead (Some m) w (sent g t s)) =
        queueDiscoveryRequest g n t (recordResponse m (logRead (Some m) w (sent g t s)))"
      "\<And>n. queueDiscoveryRequest g (Suc n) t (recordResponse m (logRead (Some m) w (sent g t s))) =
        drainRequests g n (turned g t m w s)"
    by (rule turn [OF ins less.prems x]) blast
  let ?t = "turned g t m w s"
  note sent1 = exhausts_sent [OF less.prems, of _ g]
  consider "n = 0" | "n = Suc 0" | "n = Suc (Suc 0)" | "n = Suc (Suc (Suc 0))"
    | "n = Suc (Suc (Suc (Suc 0)))" | k where "n = Suc (Suc (Suc (Suc (Suc k))))"
    by (metis not0_implies_Suc)
  then show ?case
  proof cases
    case k: 6
    have "exhausts ((k + 3) div 5) (k div 5) t x ?t (drainRequests g k ?t)"
      by (rule less.IH) (use k pushed_turned [OF less.prems mw] in simp_all)
    then have "exhausts (Suc ((k + 3) div 5)) (k div 5 + 1) t x s (drainRequests g k ?t)"
      by (rule exhausts_written [where q = "next_request s t"])
        (use less.prems next_request_of_type in \<open>auto simp: pushed_def queue_length_def\<close>)
    moreover have "(n + 3) div 5 = Suc ((k + 3) div 5)" and "n div 5 = k div 5 + 1"
      using div_add_self2 [of 5 "k + 3"] div_add_self2 [of 5 k] k by simp_all
    ultimately show ?thesis
      unfolding k eqs by (simp only: exhausts_bind)
  qed (simp_all add: eqs exhausts_bind exhausts_here sent1 del: drainRequests.simps(2) sendDiscoveryRequest.simps(2) readResponses.simps(2))
qed

text \<open>A request queued on an idle client starts the first turn.\<close>

lemma queue_exhausts:
  assumes ins: "insistent g up t v" and l: "live P s" and idle: "request_queue s = Some []"
    and s: "\<not> shutdown_flag s" "up (net s)" "subscribed (api_of s t) \<or> first_stream_request s"
    and x: "req_version_info (request (api_of s t)) = x" "x \<noteq> v"
  shows "exhausts ((n + 2) div 5) ((n + 4) div 5) t x s (queueDiscoveryRequest g n t s)"
proof (cases n)
  case 0
  then show ?thesis by (simp add: exhausts_here)
next
  case (Suc k)
  let ?s = "queued_alone t s"
  have push: "pushQueue t (touch t s) = Inr ?s" by (simp add: pushQueue_def idle)
  have "live P ?s" by (rule live_push [OF push live_touch [OF l]])
  then have "pushed P up t x ?s" using s x(1) by (simp add: pushed_def)
  from drain_exhausts [OF ins x(2) this, of k]
  have "exhausts ((k + 3) div 5) (k div 5 + 1) t x s (drainRequests g k ?s)"
    by (auto simp: exhausts_def queue_length_def idle)
  moreover have "queueDiscoveryRequest g n t s = drainRequests g k ?s"
    using l wf_not_paused [of P s t] by (simp add: Suc queueDiscoveryRequest_eq push live_def)
  moreover have "(n + 4) div 5 = k div 5 + 1"
    using div_add_self2 [of 5 k] Suc by simp
  moreover have "n + 2 = k + 3" by (simp add: Suc)
  ultimately show ?thesis by (simp only:)
qed

section \<open>The program\<close>

lemma main_exhausts:
  assumes ins: "insistent g up cluster_type_url v" and "rpc_open g w = (True, w1)" and "up w1" and "v \<noteq> []"
  shows "exhausts ((n + 1) div 5) ((n + 3) div 5) cluster_type_url [] (start_state w w1) (main_ads g n w)"
proof (cases n)
  case 0
  then show ?thesis by (simp add: main_ads_eq [OF assms(2)] exhausts_here exhausts_bind)
next
  case (Suc k)
  let ?s = "start_state w w1"
  have "exhausts ((k + 2) div 5) ((k + 4) div 5) cluster_type_url [] ?s
      (queueDiscoveryRequest g k cluster_type_url ?s)"
    by (rule queue_exhausts [OF ins, where P = "{}"])
      (use start_state_facts(1,3,4) [of w w1] assms(3,4) in
        \<open>auto simp: plain_def new_api_state_def empty_request_def modifyRequest_def\<close>)
  moreover have "n + 1 = k + 2" and "n + 3 = k + 4" by (simp_all add: Suc)
  moreover have "main_ads g n w = bind_res (bind_res (queueDiscoveryRequest g k cluster_type_url ?s)
      (requeueFrom g k 1)) (shutdown g)"
    by (simp add: main_ads_eq [OF assms(2)] start_state_facts(2) Suc)
  ultimately show ?thesis by (simp only: exhausts_bind)
qed

section \<open>A control plane of this kind\<close>

text \<open>
  The state-of-the-world server of the instance: it remembers the last request; a read
  returns version \<open>''1''\<close> of the clusters unless the request reports that version.
\<close>

definition push_rpc :: "discovery_response \<Rightarrow> discovery_request option sync_rpc" where
  "push_rpc m = \<lparr>rpc_open = (\<lambda>w. (True, None)), rpc_write = (\<lambda>q w. (True, Some q)),
     rpc_read = (\<lambda>w. case w of None \<Rightarrow> (None, None)
       | Some q \<Rightarrow> if req_version_info q = resp_version_info m then (None, None) else (Some m, None)),
     rpc_writes_done = (\<lambda>w. (True, w)), rpc_finish = (\<lambda>w. (True, w))\<rparr>"

lemma push_rpc_insistent:
  "resp_resources m \<noteq> [] \<Longrightarrow> insistent (push_rpc m) (\<lambda>w. True) (resp_type_url m) (resp_version_info m)"
  by (simp add: insistent_def push_rpc_def)

text \<open>
  The chat session acknowledges every response, so the same server lets it finish: two
  requests, the second with the version and the nonce of the response.
\<close>

lemma chat_settles:
  assumes "stream s" and "resp_version_info m \<noteq> []"
  shows "\<exists>s' q q'. AggregatedDiscoveryService (push_rpc m) (Suc (Suc n)) s = Inr s' \<and>
    io_log s' = io_log s @ [Wrote q, ReadMsg m, Wrote q', ReadEnd] \<and>
    req_version_info q' = resp_version_info m \<and> req_response_nonce q' = resp_nonce m"
  using assms by (simp add: AggregatedDiscoveryService_def push_rpc_def continueChat_def Let_def logRead_def)

definition clusters_v1 :: discovery_response where
  "clusters_v1 = empty_response\<lparr>resp_version_info := ''1'', resp_resources := [empty_any],
     resp_type_url := cluster_type_url, resp_nonce := ''n1''\<rparr>"

section \<open>The property\<close>

text \<open>
  C28. Updates never settle. Against a control plane that answers a request with the
  resources of version \<open>v\<close> until a request reports \<open>v\<close>, a request of an open idle client whose
  template reports something else never returns: whatever the fuel, it is used up, the
  requests written for the type and the entries of the queue grow in proportion to it, and
  every one of those requests still reports the old version. The program itself, whose first
  request reports no version, is caught so by its first cluster update: it never reaches its
  shutdown.
\<close>

theorem updates_never_settle:
  assumes "insistent g up t v"
  shows "(wf_client s \<and> stream s \<and> request_queue s = Some [] \<and> \<not> shutdown_flag s \<and> up (net s) \<and>
      (subscribed (api_of s t) \<or> first_stream_request s) \<and>
      req_version_info (request (api_of s t)) = x \<and> x \<noteq> v \<longrightarrow>
      exhausts ((n + 2) div 5) ((n + 4) div 5) t x s (queueDiscoveryRequest g n t s)) \<and>
    (t = cluster_type_url \<and> rpc_open g w = (True, w1) \<and> up w1 \<and> v \<noteq> [] \<longrightarrow>
      (\<exists>s'. main_ads g n w = Inl (OutOfFuel, s') \<and> length (writes_of (io_log s')) = (n + 1) div 5 \<and>
        (\<forall>q\<in>set (writes_of (io_log s')). req_type_url q = cluster_type_url \<and> req_version_info q = [])))"
proof (intro conjI impI; elim conjE)
  assume "t = cluster_type_url" "rpc_open g w = (True, w1)" "up w1" "v \<noteq> []"
  with main_exhausts [of g up v w w1 n] assms
  have "exhausts ((n + 1) div 5) ((n + 3) div 5) cluster_type_url [] (start_state w w1) (main_ads g n w)"
    by simp
  then show "\<exists>s'. main_ads g n w = Inl (OutOfFuel, s') \<and> length (writes_of (io_log s')) = (n + 1) div 5 \<and>
      (\<forall>q\<in>set (writes_of (io_log s')). req_type_url q = cluster_type_url \<and> req_version_info q = [])"
    by (auto simp: exhausts_def start_state_facts(6))
qed (rule queue_exhausts [OF assms, where P = "{}"], simp_all add: live_def)

theorem updates_never_settle_witness:
  "insistent (push_rpc clusters_v1) (\<lambda>w. True) cluster_type_url ''1'' \<and>
   exhausts 2 3 cluster_type_url [] (start_state None None)
     (queueDiscoveryRequest (push_rpc clusters_v1) 11 cluster_type_url (start_state None None)) \<and>
   (\<exists>s'. main_ads (push_rpc clusters_v1) 99 None = Inl (OutOfFuel, s') \<and>
     length (writes_of (io_log s')) = 20)"
proof -
  have ins: "insistent (push_rpc clusters_v1) (\<lambda>w. True) cluster_type_url ''1''"
    using push_rpc_insistent [of clusters_v1] by (simp add: clusters_v1_def)
  have "plain (start_state None None)" "rpc_open (push_rpc clusters_v1) None = (True, None)"
    by (simp_all add: start_state_facts(1) push_rpc_def)
  then show ?thesis
    using ins updates_never_settle [OF ins, of "start_state None None" "[]" 11]
      updates_never_settle [OF ins, of "start_state None None" "[]" 99 None None]
    by (auto simp: plain_def live_def start_state_facts(3) new_api_state_def empty_request_def)
qed

end
