(* ===== verification/Exchange_Log.thy ===== *)
theory Exchange_Log
  imports Client_Operations
begin

text \<open>
  The event log of the multiplexer read as an exchange of requests and responses: for each
  type and the current stream the latest nonce and who spoke last, and when the log accounts
  for the nonce and the version of every request in it.

  Between reading a response and recording it the templates lag behind the log, so an
  invariant that relates the two holds between the calls only. The locale \<open>between_calls\<close>
  states that contract for any invariant \<open>I\<close> of the states between calls and any property \<open>V\<close>
  of every state, and proves it of the five re-entrant calls at once.
\<close>

section \<open>The log of one type on the current stream\<close>

text \<open>
  \<open>on_stream\<close> keeps, for one type, the nonce of the latest response on the current stream,
  whether a request of the type was written on it, and whether a response of the type
  followed such a request. A stream that opens starts afresh.
\<close>

type_synonym exchange = "string \<times> bool \<times> bool"

fun on_event :: "string \<Rightarrow> io_event \<Rightarrow> exchange \<Rightarrow> exchange" where
  "on_event t (Opened ok) x = (if ok then ([], False, False) else x)"
| "on_event t (Wrote r) x = (fst x, fst (snd x) \<or> req_type_url r = t, snd (snd x))"
| "on_event t (ReadMsg m) x =
     (if resp_type_url m = t then (resp_nonce m, fst (snd x), fst (snd x) \<or> snd (snd x)) else x)"
| "on_event t _ x = x"

definition on_stream :: "string \<Rightarrow> io_event list \<Rightarrow> exchange" where
  "on_stream t es = fold (on_event t) es ([], False, False)"

definition latest_nonce :: "string \<Rightarrow> io_event list \<Rightarrow> string" where
  "latest_nonce t es = fst (on_stream t es)"

definition was_asked :: "string \<Rightarrow> io_event list \<Rightarrow> bool" where
  "was_asked t es = fst (snd (on_stream t es))"

definition was_answered :: "string \<Rightarrow> io_event list \<Rightarrow> bool" where
  "was_answered t es = snd (snd (on_stream t es))"

lemma exchange_simps [simp]:
  "latest_nonce t [] = []" "\<not> was_asked t []" "\<not> was_answered t []"
  "latest_nonce t (es @ [Opened ok]) = (if ok then [] else latest_nonce t es)"
  "was_asked t (es @ [Opened ok]) = (\<not> ok \<and> was_asked t es)"
  "was_answered t (es @ [Opened ok]) = (\<not> ok \<and> was_answered t es)"
  "latest_nonce t (es @ [Wrote r]) = latest_nonce t es"
  "was_asked t (es @ [Wrote r]) = (was_asked t es \<or> req_type_url r = t)"
  "was_answered t (es @ [Wrote r]) = was_answered t es"
  "latest_nonce t (es @ [ReadMsg m]) = (if resp_type_url m = t then resp_nonce m else latest_nonce t es)"
  "was_asked t (es @ [ReadMsg m]) = was_asked t es"
  "was_answered t (es @ [ReadMsg m]) =
     (was_answered t es \<or> resp_type_url m = t \<and> was_asked t es)"
  by (auto simp: latest_nonce_def was_asked_def was_answered_def on_stream_def)

definition silent :: "io_event \<Rightarrow> bool" where
  "silent e \<longleftrightarrow> e \<in> {ReadEnd, DoneWriting, Finished True, Finished False}"

lemma exchange_silent [simp]:
  "silent e \<Longrightarrow> latest_nonce t (es @ [e]) = latest_nonce t es"
  "silent e \<Longrightarrow> was_asked t (es @ [e]) = was_asked t es"
  "silent e \<Longrightarrow> was_answered t (es @ [e]) = was_answered t es"
  by (auto simp: latest_nonce_def was_asked_def was_answered_def on_stream_def silent_def)

lemma silent_simps [simp]: "silent ReadEnd" "silent DoneWriting" "silent (Finished ok)"
  by (cases ok) (simp_all add: silent_def)

lemma answered_asked: "was_answered t es \<Longrightarrow> was_asked t es"
proof (induction es rule: rev_induct)
  case (snoc e es)
  then show ?case by (cases e) (auto split: if_splits)
qed simp

section \<open>Requests the log accounts for\<close>

definition nonce_ok :: "string \<Rightarrow> io_event list \<Rightarrow> discovery_request \<Rightarrow> bool" where
  "nonce_ok t es r \<longleftrightarrow> req_response_nonce r = latest_nonce t es \<or>
    req_response_nonce r = [] \<and> \<not> was_answered t es"

definition version_ok :: "string \<Rightarrow> io_event list \<Rightarrow> discovery_request \<Rightarrow> bool" where
  "version_ok t es r \<longleftrightarrow> req_version_info r = [] \<or>
    (\<exists>m\<in>set (reads_of es). resp_type_url m = t \<and> resp_resources m = [] \<and>
       resp_version_info m = req_version_info r)"

definition accounted :: "io_event list \<Rightarrow> bool" where
  "accounted es \<longleftrightarrow> (\<forall>xs r ys. es = xs @ Wrote r # ys \<longrightarrow> req_type_url r \<noteq> [] \<longrightarrow>
     nonce_ok (req_type_url r) xs r \<and> version_ok (req_type_url r) xs r)"

lemma accounted_Nil [simp]: "accounted []"
  by (simp add: accounted_def)

lemma accounted_snoc:
  "accounted (es @ [e]) \<longleftrightarrow> accounted es \<and>
    (case e of Wrote r \<Rightarrow> req_type_url r = [] \<or>
       nonce_ok (req_type_url r) es r \<and> version_ok (req_type_url r) es r | _ \<Rightarrow> True)"
proof -
  have "es @ [e] = xs @ Wrote r # ys \<longleftrightarrow>
      ys = [] \<and> xs = es \<and> e = Wrote r \<or> (\<exists>zs. ys = zs @ [e] \<and> es = xs @ Wrote r # zs)" for xs r ys
    by (cases ys rule: rev_cases) auto
  then show ?thesis by (auto simp: accounted_def split: io_event.split)
qed

lemma accounted_quiet:
  "accounted es \<Longrightarrow> \<not> is_write e \<Longrightarrow> accounted (es @ [e])"
  by (cases e) (simp_all add: accounted_snoc)

section \<open>The contract of an invariant between calls\<close>

definition sound :: "('s \<Rightarrow> bool) \<Rightarrow> ('s \<Rightarrow> bool) \<Rightarrow> 's call \<Rightarrow> bool" where
  "sound I V r \<longleftrightarrow> V (final r) \<and> (\<forall>s. r = Inr s \<longrightarrow> I s)"

locale between_calls =
  fixes g :: "'w sync_rpc" and I V :: "'w ads_client \<Rightarrow> bool"
  assumes I_V: "I s \<Longrightarrow> V s"
    and I_touch: "I s \<Longrightarrow> I (touch t s)"
    and I_pending: "I s \<Longrightarrow> I (modifyApi t (\<lambda>b. b\<lparr>pending := True\<rparr>) s)"
    and I_queue: "I s \<Longrightarrow> I (s\<lparr>request_queue := q\<rparr>)"
    and I_prepare: "I s \<Longrightarrow> prepareRequest t s = Inr s1 \<Longrightarrow> I s1"
    and I_transmit: "I s1 \<Longrightarrow> prepareRequest t s = Inr s1 \<Longrightarrow> transmit g t s1 = Inr s2 \<Longrightarrow> I s2"
    and I_end: "I s \<Longrightarrow> I (logRead None w s)"
    and V_read: "I s \<Longrightarrow> V (logRead (Some m) w s)"
    and I_unknown: "I s \<Longrightarrow> api_states s (resp_type_url m) = None \<Longrightarrow> I (logRead (Some m) w s)"
    and I_record: "I s \<Longrightarrow> api_states s (resp_type_url m) \<noteq> None \<Longrightarrow>
          I (recordResponse m (logRead (Some m) w s))"
begin

lemma sound_Inr: "I s \<Longrightarrow> sound I V (Inr s)"
  by (simp add: sound_def I_V)

lemma sound_halt: "V s \<Longrightarrow> sound I V (halt e s)"
  by (simp add: sound_def)

lemma sound_bind:
  "sound I V r \<Longrightarrow> (\<And>s. r = Inr s \<Longrightarrow> I s \<Longrightarrow> sound I V (f s)) \<Longrightarrow> sound I V (bind_res r f)"
  by (cases r) (auto simp: sound_def)

lemma sound_push: "I s \<Longrightarrow> sound I V (pushQueue t s)"
  by (auto simp: pushQueue_def intro!: sound_halt sound_Inr I_V I_queue split: option.split)

lemma sound_pop: "I s \<Longrightarrow> sound I V (popQueue s)"
  by (auto simp: popQueue_def intro!: sound_halt sound_Inr I_V I_queue split: option.split list.split)

lemma sound_prepare: "I s \<Longrightarrow> sound I V (prepareRequest t s)"
  using I_prepare [of s t] I_V [OF I_touch, of s t] by (auto simp: sound_def prepareRequest_eq I_V)

lemma sound_transmit: "I s1 \<Longrightarrow> prepareRequest t s = Inr s1 \<Longrightarrow> sound I V (transmit g t s1)"
  using I_transmit [of s1 t s] by (auto simp: sound_def transmit_eq I_V)

text \<open>A response is handled on the state in which it was logged.\<close>

definition handled :: "nat \<Rightarrow> bool" where
  "handled n \<longleftrightarrow> (\<forall>m w s. I s \<longrightarrow> sound I V (onDiscoveryResponse g n m (logRead (Some m) w s)))"

lemma sound_calls:
  "I s \<Longrightarrow> sound I V (queueDiscoveryRequest g n t s)"
  "I s \<Longrightarrow> sound I V (drainRequests g n s)"
  "I s \<Longrightarrow> sound I V (sendDiscoveryRequest g n t s)"
  "I s \<Longrightarrow> sound I V (readResponses g n s)"
  "handled n"
proof (induction n arbitrary: s t)
  case 0
  { case 1 then show ?case by (simp add: sound_halt I_V) }
  { case 2 then show ?case by (simp add: sound_halt I_V) }
  { case 3 then show ?case by (simp add: sound_halt I_V) }
  { case 4 then show ?case by (simp add: sound_halt I_V) }
  { case 5 show ?case by (simp add: handled_def sound_halt V_read) }
next
  case (Suc n)
  { case 1
    then show ?case
      by (auto simp: queueDiscoveryRequest_eq
          intro!: sound_Inr I_pending sound_bind sound_push I_touch Suc.IH(2)) }
  { case 2
    then show ?case
      by (auto simp: sound_halt I_V sound_Inr split: option.split list.split
          intro!: sound_bind Suc.IH(2,3) sound_pop) }
  { case 3
    then show ?case
      by (auto intro!: sound_Inr sound_bind [OF sound_prepare] sound_bind [OF sound_transmit] Suc.IH(4)) }
  { case 4
    then show ?case
      using Suc.IH(5) unfolding handled_def
      by (auto simp: I_end sound_Inr split: prod.split option.split intro!: sound_bind Suc.IH(4)) }
  { case 5
    show ?case
      by (auto simp: handled_def onDiscoveryResponse_eq intro!: sound_Inr I_unknown I_record Suc.IH(1)) }
qed

lemma sound_requeue: "I s \<Longrightarrow> sound I V (requeueFrom g n i s)"
  by (induction n arbitrary: i s) (auto intro!: sound_halt I_V sound_Inr sound_bind sound_calls)

end

end
