(* ===== verification/Nonce_Freshness.thy ===== *)
theory Nonce_Freshness
  imports Exchange_Log
begin

text \<open>
  What the requests on the wire say of the responses read before them: the nonce of a
  request is that of the latest response of its type on the same stream, and the version a
  request reports is one the client has accepted. The responses are those of the event log,
  so the statements compare the log with itself and do not look into the client.
\<close>

section \<open>Templates follow the log\<close>

definition template_ok :: "string \<Rightarrow> io_event list \<Rightarrow> discovery_request \<Rightarrow> bool" where
  "template_ok t es r \<longleftrightarrow> (req_type_url r = [] \<or> req_type_url r = t) \<and>
    (t \<noteq> [] \<longrightarrow> nonce_ok t es r \<and> version_ok t es r)"

definition follows_log :: "'w ads_client \<Rightarrow> bool" where
  "follows_log s \<longleftrightarrow> accounted (io_log s) \<and>
    (\<forall>t. template_ok t (io_log s) (request (api_of s t))) \<and>
    (\<forall>t. t \<noteq> [] \<longrightarrow> was_asked t (io_log s) \<longrightarrow> api_states s t \<noteq> None)"

lemma follows_logI:
  assumes "accounted (io_log s)"
    and "\<And>t. template_ok t (io_log s) (request (api_of s t))"
    and "\<And>t. t \<noteq> [] \<Longrightarrow> was_asked t (io_log s) \<Longrightarrow> api_states s t \<noteq> None"
  shows "follows_log s"
  using assms by (simp add: follows_log_def)

lemma follows_logD:
  assumes "follows_log s"
  shows "accounted (io_log s)" and "template_ok t (io_log s) (request (api_of s t))"
    and "t \<noteq> [] \<Longrightarrow> was_asked t (io_log s) \<Longrightarrow> api_states s t \<noteq> None"
  using assms by (auto simp: follows_log_def)

lemma template_ok_cong:
  "template_ok t es r \<Longrightarrow> req_response_nonce r' = req_response_nonce r \<Longrightarrow>
   req_version_info r' = req_version_info r \<Longrightarrow> req_type_url r' \<in> {[], t, req_type_url r} \<Longrightarrow>
   template_ok t es r'"
  by (auto simp: template_ok_def nonce_ok_def version_ok_def)

text \<open>A step that writes nothing, adds or keeps per-type states and leaves nonce and version alone.\<close>

lemma follows_log_step:
  assumes "follows_log s" and "io_log s' = io_log s"
    and "\<And>t. api_states s t \<noteq> None \<Longrightarrow> api_states s' t \<noteq> None"
    and "\<And>t. req_response_nonce (request (api_of s' t)) = req_response_nonce (request (api_of s t)) \<and>
      req_version_info (request (api_of s' t)) = req_version_info (request (api_of s t)) \<and>
      req_type_url (request (api_of s' t)) \<in> {[], t, req_type_url (request (api_of s t))}"
  shows "follows_log s'"
proof (rule follows_logI)
  show "template_ok t (io_log s') (request (api_of s' t))" for t
    using template_ok_cong [OF follows_logD(2) [OF assms(1), of t]] assms(2,4) by simp
qed (use assms(2,3) follows_logD [OF assms(1)] in auto)

lemma follows_log_frame:
  "follows_log s \<Longrightarrow> io_log s' = io_log s \<Longrightarrow> api_states s' = api_states s \<Longrightarrow> follows_log s'"
  by (simp add: follows_log_def api_of_def)

text \<open>An event that concerns no type.\<close>

lemma follows_log_silent:
  assumes "follows_log s" and "silent e" and "io_log s' = io_log s @ [e]" and "api_states s' = api_states s"
  shows "follows_log s'"
proof -
  have "\<not> is_write e" and "reads_of [e] = []" using assms(2) by (auto simp: silent_def)
  then show ?thesis
    using assms accounted_quiet [of "io_log s" e]
    by (auto simp: follows_log_def template_ok_def nonce_ok_def version_ok_def api_of_def)
qed

lemma attach_type:
  "req_type_url (request (attach t names fresh a)) \<in> {[], t, req_type_url (request a)}"
  by (auto simp: attach_def Let_def)

lemma follows_log_prepare: "follows_log s \<Longrightarrow> prepareRequest t s = Inr s1 \<Longrightarrow> follows_log s1"
  by (rule follows_log_step [of s s1])
    (use attach_type [of t "names_for s t" "first_stream_request s" "api_of s t"] in \<open>auto simp: prepareRequest_eq split: if_splits\<close>)

lemma follows_log_transmit:
  assumes I: "follows_log s1" and prep: "prepareRequest t s = Inr s1" and tr: "transmit g t s1 = Inr s2"
  shows "follows_log s2"
proof -
  let ?r = "request (api_of s1 t)"
  from tr have log: "io_log s2 = io_log s1 @ [Wrote ?r]"
    and api: "api_of s2 u = (if u = t then modifyRequest (\<lambda>r. r\<lparr>req_error_detail := None\<rparr>) (api_of s1 t)
      else api_of s1 u)"
    and dom: "api_states s2 u \<noteq> None \<longleftrightarrow> u = t \<or> api_states s1 u \<noteq> None" for u
    by (auto simp: transmit_eq split: if_splits)
  have ok: "template_ok u (io_log s1) (request (api_of s1 u))" for u by (rule follows_logD(2) [OF I])
  show ?thesis
  proof (rule follows_logI)
    show "accounted (io_log s2)"
      using ok [of t] follows_logD(1) [OF I] by (auto simp: log accounted_snoc template_ok_def)
    show "template_ok u (io_log s2) (request (api_of s2 u))" for u
      using ok [of u] by (auto simp: log api template_ok_def nonce_ok_def version_ok_def)
    show "api_states s2 u \<noteq> None" if "u \<noteq> []" "was_asked u (io_log s2)" for u
      unfolding dom using that ok [of t] follows_logD(3) [OF I, of u] by (auto simp: log template_ok_def)
  qed
qed

text \<open>
  Reading a message leaves every template right but that of its own type, and that one too
  when the type has no state yet: then it was never asked for on this stream.
\<close>

lemma template_ok_read:
  assumes "template_ok t es r" and "resp_type_url m \<noteq> t \<or> \<not> was_asked t es \<and> req_response_nonce r = []"
  shows "template_ok t (es @ [ReadMsg m]) r"
  using assms answered_asked [of t es] by (auto simp: template_ok_def nonce_ok_def version_ok_def)

lemma request_unknown: "api_states s t = None \<Longrightarrow> request (api_of s t) = empty_request"
  by (simp add: api_of_def)

lemma follows_log_unknown:
  assumes I: "follows_log s" and none: "api_states s (resp_type_url m) = None"
  shows "follows_log (logRead (Some m) w s)"
proof (rule follows_logI)
  show "template_ok t (io_log (logRead (Some m) w s)) (request (api_of (logRead (Some m) w s) t))" for t
  proof (cases "resp_type_url m = t \<and> t \<noteq> []")
    case True
    then have "\<not> was_asked t (io_log s)" and "req_response_nonce (request (api_of s t)) = []"
      using follows_logD(3) [OF I, of t] none by (auto simp: request_unknown empty_request_def)
    then show ?thesis using template_ok_read [OF follows_logD(2) [OF I, of t], of m] by simp
  next
    case False
    then show ?thesis
      using template_ok_read [OF follows_logD(2) [OF I, of t], of m] follows_logD(2) [OF I, of t]
      by (cases "t = []") (auto simp: template_ok_def)
  qed
qed (use follows_logD [OF I] in \<open>auto intro!: accounted_quiet\<close>)

lemma recordResponse_other: "t \<noteq> resp_type_url m \<Longrightarrow> api_of (recordResponse m s) t = api_of s t"
  by (simp add: recordResponse_def Let_def)

lemma recordResponse_own:
  fixes m s
  defines "r \<equiv> request (api_of s (resp_type_url m))"
    and "r' \<equiv> request (api_of (recordResponse m s) (resp_type_url m))"
  shows "req_response_nonce r' = resp_nonce m" and "req_type_url r' = req_type_url r"
    and "req_version_info r' = req_version_info r \<or>
      resp_resources m = [] \<and> req_version_info r' = resp_version_info m"
  by (auto simp: r_def r'_def recordResponse_def Let_def)

lemma template_ok_recorded:
  assumes "template_ok (resp_type_url m) es r" and "req_response_nonce r' = resp_nonce m"
    and "req_type_url r' = req_type_url r"
    and "req_version_info r' = req_version_info r \<or>
      resp_resources m = [] \<and> req_version_info r' = resp_version_info m"
  shows "template_ok (resp_type_url m) (es @ [ReadMsg m]) r'"
  using assms by (auto simp: template_ok_def nonce_ok_def version_ok_def)

lemma follows_log_record:
  assumes I: "follows_log s"
  shows "follows_log (recordResponse m (logRead (Some m) w s))"
proof (rule follows_logI)
  let ?s = "logRead (Some m) w s"
  show "template_ok t (io_log (recordResponse m ?s)) (request (api_of (recordResponse m ?s) t))" for t
  proof (cases "t = resp_type_url m")
    case True
    show ?thesis
      unfolding True
      using template_ok_recorded [OF follows_logD(2) [OF I, of "resp_type_url m"]]
        recordResponse_own [where m = m and s = ?s] by simp
  next
    case False
    then show ?thesis
      using template_ok_read [OF follows_logD(2) [OF I, of t], of m] by (simp add: recordResponse_other)
  qed
  show "api_states (recordResponse m ?s) t \<noteq> None"
    if "t \<noteq> []" and "was_asked t (io_log (recordResponse m ?s))" for t
  proof -
    from that have "was_asked t (io_log s)" by simp
    with that(1) have "api_states s t \<noteq> None" by (rule follows_logD(3) [OF I])
    then show ?thesis by (auto simp: recordResponse_def Let_def)
  qed
qed (use follows_logD(1) [OF I] in \<open>auto intro!: accounted_quiet\<close>)

interpretation log: between_calls g follows_log "\<lambda>s. accounted (io_log s)" for g :: "'w sync_rpc"
proof
  fix s s1 s2 :: "'w ads_client" and t q w m
  assume I: "follows_log s"
  show "accounted (io_log s)" by (rule follows_logD(1) [OF I])
  show "follows_log (touch t s)" and "follows_log (modifyApi t (\<lambda>b. b\<lparr>pending := True\<rparr>) s)"
    by (rule follows_log_step [OF I]; simp)+
  show "follows_log (s\<lparr>request_queue := q\<rparr>)" by (rule follows_log_frame [OF I]) simp_all
  show "prepareRequest t s = Inr s1 \<Longrightarrow> follows_log s1" by (rule follows_log_prepare [OF I])
  show "follows_log (logRead None w s)" by (rule follows_log_silent [OF I, of ReadEnd]) simp_all
  show "accounted (io_log (logRead (Some m) w s))"
    using follows_logD(1) [OF I] by (auto intro!: accounted_quiet)
  show "api_states s (resp_type_url m) = None \<Longrightarrow> follows_log (logRead (Some m) w s)"
    by (rule follows_log_unknown [OF I])
  show "follows_log (recordResponse m (logRead (Some m) w s))" by (rule follows_log_record [OF I])
qed (rule follows_log_transmit)

section \<open>Runs of the multiplexer\<close>

text \<open>
  \<open>mux_call g s r\<close>: calling a public operation of the multiplexer in \<open>s\<close> ends as \<open>r\<close>. A run
  is any sequence of such calls that returned, on any number of streams, from construction;
  the call after it may also fault. The chat session writes requests of its own on the same
  stream and is not part of such runs; responses reach \<^verbatim>\<open>onDiscoveryResponse\<close> through the
  read loop only.
\<close>

inductive mux_call :: "'w sync_rpc \<Rightarrow> 'w ads_client \<Rightarrow> 'w ads_client call \<Rightarrow> bool" for g s where
  channel: "mux_call g s (Inr (setChannel s))"
| lookup: "mux_call g s (Inr (snd (apiStateFor t s)))"
| establish: "mux_call g s (onStreamEstablished g n s)"
| add: "mux_call g s (addWatch g n p t rs dec s)"
| update: "mux_call g s (Watcher_update g n p rs s)"
| destroy: "mux_call g s (Watcher_destroy g n p s)"
| queue: "mux_call g s (queueDiscoveryRequest g n t s)"
| stop: "mux_call g s (shutdown g s)"

inductive mux_run :: "'w sync_rpc \<Rightarrow> 'w \<Rightarrow> 'w ads_client \<Rightarrow> bool" for g w where
  start: "mux_run g w (AdsClient w)"
| call: "mux_run g w s \<Longrightarrow> mux_call g s (Inr s') \<Longrightarrow> mux_run g w s'"

lemma follows_log_AdsClient: "follows_log (AdsClient w)"
  by (simp add: follows_log_def AdsClient_def api_of_def template_ok_def nonce_ok_def version_ok_def
      empty_request_def)

lemma follows_log_established:
  assumes "follows_log s"
  shows "follows_log (established w s)"
proof (rule follows_logI)
  show "template_ok t (io_log (established w s)) (request (api_of (established w s) t))" for t
    using follows_logD(2) [OF assms, of t]
    by (auto simp: template_ok_def nonce_ok_def version_ok_def)
qed (use follows_logD(1) [OF assms] in \<open>auto intro!: accounted_quiet\<close>)

lemma follows_log_no_stream:
  assumes "follows_log s"
  shows "follows_log (s\<lparr>stream := False, net := w, io_log := io_log s @ [Opened False]\<rparr>)"
  using follows_logD [OF assms] accounted_quiet [of "io_log s" "Opened False"]
  by (auto simp: follows_log_def template_ok_def nonce_ok_def version_ok_def)

abbreviation sound_log :: "'w ads_client call \<Rightarrow> bool" where
  "sound_log \<equiv> sound follows_log (\<lambda>s. accounted (io_log s))"

lemma sound_established:
  "follows_log s \<Longrightarrow> sound_log (onStreamEstablished g n s)"
  by (auto simp: onStreamEstablished_eq intro!: log.sound_halt log.sound_Inr log.sound_requeue
      follows_log_established follows_log_no_stream dest: follows_logD(1))

lemma follows_log_updateResources:
  "follows_log s \<Longrightarrow> updateResources p rs s = Inr s' \<Longrightarrow> follows_log s'"
  by (rule follows_log_step [of s s']) (auto simp: updateResources_def split: option.splits)

lemma follows_log_Watcher: "follows_log s \<Longrightarrow> Watcher p rs dec t s = Inr s' \<Longrightarrow> follows_log s'"
  unfolding Watcher_def
  by (rule follows_log_updateResources [OF follows_log_step [of s]])
    (auto simp: apiStateFor_eq)

lemma follows_log_eraseWatch: "follows_log s \<Longrightarrow> follows_log (eraseWatch p wt s)"
  by (rule follows_log_step [of s]) (auto simp: eraseWatch_def)

lemma follows_log_subscribeOnce: "follows_log s \<Longrightarrow> follows_log (subscribeOnce t s)"
  by (rule follows_log_step [of s]) (auto simp: subscribeOnce_def apiStateFor_eq)

lemma sound_updateResources:
  "follows_log s \<Longrightarrow> sound_log (updateResources p rs s)"
  using follows_log_updateResources [of s p rs]
  by (cases "watchers s p") (auto simp: updateResources_def intro!: log.sound_halt log.sound_Inr dest: follows_logD(1))

lemma sound_remove:
  "follows_log s \<Longrightarrow> sound_log
     (if b then queueDiscoveryRequest g n t (eraseWatch p wt s) else Inr (eraseWatch p wt s))"
  by (simp add: log.sound_calls(1) log.sound_Inr follows_log_eraseWatch)

lemma sound_watch_ops:
  assumes "follows_log s"
  shows "sound_log (addWatch g n p t rs dec s)"
    and "sound_log (Watcher_update g n p rs s)"
    and "sound_log (Watcher_destroy g n p s)"
proof -
  show "sound_log (addWatch g n p t rs dec s)"
    using follows_log_Watcher [OF assms]
    by (auto simp: addWatch_def Watcher_def updateResources_def
        intro!: log.sound_bind log.sound_Inr log.sound_calls follows_log_subscribeOnce)
  note remove = log.sound_bind [OF sound_remove [OF assms]]
  show "sound_log (Watcher_update g n p rs s)"
  proof (cases "watchers s p")
    case (Some wt)
    show ?thesis
      unfolding Watcher_update_def Some option.case
      by (rule remove, rule log.sound_bind [OF sound_updateResources], assumption, rule log.sound_calls)
  qed (simp add: Watcher_update_def log.sound_halt follows_logD(1) [OF assms])
  show "sound_log (Watcher_destroy g n p s)"
  proof (cases "watchers s p")
    case (Some wt)
    show ?thesis
      unfolding Watcher_destroy_def Some option.case
      by (rule remove, rule log.sound_Inr, erule follows_log_frame) simp_all
  qed (simp add: Watcher_destroy_def log.sound_halt follows_logD(1) [OF assms])
qed

lemma sound_shutdown:
  assumes "follows_log s"
  shows "sound_log (shutdown g s)"
proof -
  let ?s = "s\<lparr>io_log := io_log s @ [DoneWriting]\<rparr>"
  have "follows_log ?s" by (rule follows_log_silent [OF assms, of DoneWriting]) simp_all
  then have stopped: "follows_log s'" if "io_log s' = io_log ?s @ [Finished ok]" "api_states s' = api_states s"
    for s' :: "'w ads_client" and ok
    by (rule follows_log_silent [of ?s "Finished ok" s']) (simp_all add: that)
  show ?thesis
    by (auto simp: shutdown_def endStream_def follows_logD(1) [OF assms] Let_def
        intro!: log.sound_halt log.sound_Inr stopped split: prod.split)
qed

lemma sound_Inr_D: "sound I V (Inr s) \<Longrightarrow> I s"
  by (simp add: sound_def)

lemma mux_call_sound: "mux_call g s r \<Longrightarrow> follows_log s \<Longrightarrow> sound_log r"
proof (induction rule: mux_call.induct)
  case channel
  then have "follows_log (setChannel s)" by (rule follows_log_frame) (simp_all add: setChannel_def)
  then show ?case by (rule log.sound_Inr)
next
  case (lookup t)
  then show ?case by (simp add: apiStateFor_eq log.I_touch log.sound_Inr)
qed (rule sound_established sound_watch_ops sound_shutdown log.sound_calls(1); assumption)+

lemma mux_run_follows_log: "mux_run g w s \<Longrightarrow> follows_log s"
proof (induction rule: mux_run.induct)
  case start
  show ?case by (rule follows_log_AdsClient)
next
  case (call s s')
  then show ?case by (blast intro: sound_Inr_D mux_call_sound)
qed

lemma mux_call_accounted:
  assumes "mux_run g w s" and "mux_call g s r"
  shows "accounted (io_log (final r))"
  using mux_call_sound [OF assms(2) mux_run_follows_log [OF assms(1)]] by (simp add: sound_def)

section \<open>Nonces and versions on the wire\<close>

text \<open>
  C36. No request carries a stale nonce. Take any run of the multiplexer and the next call,
  however it ends, and any request in the log that names its type. Its nonce is that of the
  latest response of that type read on the same stream before it; it can be empty instead
  only as long as no response of the type has followed a request of the type on that stream.
\<close>

theorem nonces_are_current:
  assumes "mux_run g w s" and "mux_call g s c" and "io_log (final c) = xs @ Wrote r # ys"
    and "req_type_url r \<noteq> []"
  shows "req_response_nonce r = latest_nonce (req_type_url r) xs \<or>
    req_response_nonce r = [] \<and> \<not> was_answered (req_type_url r) xs"
  using mux_call_accounted [OF assms(1,2)] assms(3,4) by (simp add: accounted_def nonce_ok_def)

text \<open>
  The instances: a server that answers the first request with one cluster response, either
  with a resource, so that it is answered at once, or without, so that it is taken over.
\<close>

definition one_response :: "any_msg list \<Rightarrow> discovery_response" where
  "one_response rs = empty_response\<lparr>resp_version_info := ''v1'', resp_resources := rs,
     resp_type_url := cluster_type_url, resp_nonce := ''n1''\<rparr>"

definition one_session :: "any_msg list \<Rightarrow> discovery_response list ads_client call" where
  "one_session rs = onStreamEstablished script_rpc 30 (setChannel (AdsClient [one_response rs]))"

definition request_at :: "nat \<Rightarrow> io_event list \<Rightarrow> discovery_request" where
  "request_at i es = (case es ! i of Wrote r \<Rightarrow> r | _ \<Rightarrow> empty_request)"

lemma log_at:
  assumes "i < length es" and "is_write (es ! i)"
  shows "es = take i es @ Wrote (request_at i es) # drop (Suc i) es"
  using id_take_nth_drop [OF assms(1)] assms(2) by (cases "es ! i") (simp_all add: request_at_def)

lemma one_session_run:
  "mux_run script_rpc [one_response rs] (setChannel (AdsClient [one_response rs]))"
  "mux_call script_rpc (setChannel (AdsClient [one_response rs])) (one_session rs)"
  unfolding one_session_def
  by (rule mux_run.call [OF mux_run.start mux_call.channel], rule mux_call.establish)

theorem nonces_are_current_witness:
  "\<exists>xs r ys. io_log (final (one_session [empty_any])) = xs @ Wrote r # ys \<and>
     was_answered cluster_type_url xs \<and> latest_nonce cluster_type_url xs = ''n1'' \<and>
     req_type_url r = cluster_type_url \<and> req_response_nonce r = ''n1''"
proof -
  let ?es = "io_log (final (one_session [empty_any]))"
  have "3 < length ?es" and "is_write (?es ! 3)" by code_simp+
  note log = log_at [OF this]
  have url: "req_type_url (request_at 3 ?es) = cluster_type_url"
    and answered: "was_answered cluster_type_url (take 3 ?es)"
    and latest: "latest_nonce cluster_type_url (take 3 ?es) = ''n1''"
    by code_simp+
  have "req_type_url (request_at 3 ?es) \<noteq> []" by (simp add: url cluster_type_url_def)
  from nonces_are_current [OF one_session_run log this] answered latest
  have "req_response_nonce (request_at 3 ?es) = ''n1''" by (simp add: url)
  with log url answered latest show ?thesis by blast
qed

text \<open>
  C37. No request reports a version the client has not accepted. In the log of any run, the
  version of a request that names its type is empty or that of a response of the type read
  before it, on this stream or an earlier one, whose resource list was empty; those are the
  only responses the multiplexer takes over.
\<close>

theorem versions_were_accepted:
  assumes "mux_run g w s" and "mux_call g s c" and "io_log (final c) = xs @ Wrote r # ys"
    and "req_type_url r \<noteq> []"
  shows "req_version_info r = [] \<or>
    (\<exists>m\<in>set (reads_of xs). resp_type_url m = req_type_url r \<and> resp_resources m = [] \<and>
       resp_version_info m = req_version_info r)"
  using mux_call_accounted [OF assms(1,2)] assms(3,4) by (simp add: accounted_def version_ok_def)

theorem versions_were_accepted_witness:
  "\<exists>xs r ys m. io_log (final (one_session [])) = xs @ Wrote r # ys \<and> req_version_info r = ''v1'' \<and>
     m \<in> set (reads_of xs) \<and> resp_version_info m = ''v1'' \<and> resp_resources m = []"
proof -
  let ?es = "io_log (final (one_session []))"
  have "4 < length ?es" and "is_write (?es ! 4)" by code_simp+
  note log = log_at [OF this]
  have url: "req_type_url (request_at 4 ?es) = cluster_type_url"
    and version: "req_version_info (request_at 4 ?es) = ''v1''"
    by code_simp+
  have "req_type_url (request_at 4 ?es) \<noteq> []" by (simp add: url cluster_type_url_def)
  from versions_were_accepted [OF one_session_run log this] version
  obtain m where "m \<in> set (reads_of (take 4 ?es))" "resp_version_info m = ''v1''" "resp_resources m = []"
    by auto
  with log version show ?thesis by blast
qed

end
