(* ===== verification/Local_Info.thy ===== *)
theory Local_Info
  imports Discovery_Messages
begin

text \<open>
  The identity of the anylink client: \<^verbatim>\<open>anylink/local/LocalInfo.h\<close>, and the small value classes of the protocol client (\<^verbatim>\<open>Config.h\<close>, \<^verbatim>\<open>State.h\<close>,
  \<^verbatim>\<open>ResourceName.h\<close>, \<^verbatim>\<open>ResourceKey.h\<close>, \<^verbatim>\<open>XdsSignal.h\<close>).
\<close>

section \<open>LocalInfo\<close>

record local_info =
  li_node :: node
  li_address :: string

text \<open>\<^verbatim>\<open>LocalInfo(address, nodeId)\<close>.\<close>

definition LocalInfo_short :: "string \<Rightarrow> string \<Rightarrow> local_info" where
  "LocalInfo_short address nodeId =
    \<lparr>li_node = (if nodeId \<noteq> [] then empty_node\<lparr>node_id := nodeId\<rparr> else empty_node),
     li_address = address\<rparr>"

text \<open>\<^verbatim>\<open>address.substr(0, address.find(":"))\<close>, the whole address where there is no colon.\<close>

definition host_part :: "string \<Rightarrow> string" where
  "host_part address = takeWhile (\<lambda>c. c \<noteq> CHR '':'') address"

definition sidecar_id :: "string \<Rightarrow> string \<Rightarrow> string" where
  "sidecar_id address nodeId =
    ''sidecar~'' @ host_part address @ ''~'' @ nodeId @ ''~'' @ ''testDNS''"

definition istio_metadata :: pb_struct where
  "istio_metadata = Map.empty(''CLUSTER_ID'' \<mapsto> StringValue ''Kubernetes'',
     ''CONFIG_NAMESPACE'' \<mapsto> StringValue ''default'', ''ISTIO_VERSION'' \<mapsto> StringValue ''1.5.1'',
     ''NAME'' \<mapsto> StringValue ''test'', ''NAMESPACE'' \<mapsto> StringValue ''default'',
     ''POD_NAME'' \<mapsto> StringValue ''test'')"

definition LocalInfo :: "string \<Rightarrow> string \<Rightarrow> string \<Rightarrow> local_info" where
  "LocalInfo address clusterName nodeId =
    (let n1 = (if clusterName \<noteq> [] then empty_node\<lparr>node_cluster := clusterName\<rparr> else empty_node);
         n2 = (if nodeId \<noteq> [] then n1\<lparr>node_id := sidecar_id address nodeId\<rparr> else n1);
         n3 = n2\<lparr>node_user_agent_name := ''anylinkLibrary''\<rparr>
     in \<lparr>li_node = n3\<lparr>node_metadata := Some istio_metadata\<rparr>, li_address = address\<rparr>)"

definition zoneName :: "local_info \<Rightarrow> string" where
  "zoneName l = (case node_locality (li_node l) of None \<Rightarrow> [] | Some z \<Rightarrow> loc_zone z)"

definition info_clusterName :: "local_info \<Rightarrow> string" where
  "info_clusterName l = node_cluster (li_node l)"

definition info_nodeId :: "local_info \<Rightarrow> string" where
  "info_nodeId l = node_id (li_node l)"

section \<open>Reading a node identity back\<close>

text \<open>The fields of a node identity, as the control plane splits it.\<close>

fun split_at :: "char \<Rightarrow> string \<Rightarrow> string list" where
  "split_at d [] = [[]]"
| "split_at d (c # cs) = (if c = d then [] # split_at d cs
     else (case split_at d cs of [] \<Rightarrow> [[c]] | f # fs \<Rightarrow> (c # f) # fs))"

lemma split_at_nonempty [simp]: "split_at d cs \<noteq> []"
  by (induction cs) (auto split: list.split)

lemma split_at_field:
  "d \<notin> set xs \<Longrightarrow> split_at d (xs @ d # ys) = xs # split_at d ys"
  by (induction xs) auto

lemma split_at_last: "d \<notin> set xs \<Longrightarrow> split_at d xs = [xs]"
  by (induction xs) auto

lemma set_host_part: "set (host_part address) \<subseteq> set address"
  by (auto simp: host_part_def dest: set_takeWhileD)

lemma sidecar_id_fields:
  assumes "CHR ''~'' \<notin> set address" and "CHR ''~'' \<notin> set nodeId"
  shows "split_at (CHR ''~'') (sidecar_id address nodeId) =
    [''sidecar'', host_part address, nodeId, ''testDNS'']"
proof -
  have h: "CHR ''~'' \<notin> set (host_part address)" using assms(1) set_host_part by blast
  have "sidecar_id address nodeId =
      ''sidecar'' @ CHR ''~'' # host_part address @ CHR ''~'' # nodeId @ CHR ''~'' # ''testDNS''"
    by (simp add: sidecar_id_def)
  then show ?thesis
    using h assms(2) by (simp add: split_at_field split_at_last del: append.simps split_at.simps)
qed

section \<open>Small classes of the protocol client\<close>

datatype XdsSignal = SignalNone | Ack | Nack

record ResourceKey =
  key_name :: string
  key_type_url :: string

text \<open>\<^verbatim>\<open>getResourceName\<close> returns the empty string for every message type.\<close>

definition getResourceName :: string where
  "getResourceName = []"

definition getTypeUrl :: string where
  "getTypeUrl = ''type.googleapis.com/'' @ getResourceName"

text \<open>\<^verbatim>\<open>State\<close>: the known resources of each type.\<close>

record known_state =
  known_resources :: "string \<rightharpoonup> std_set"
  pending_pushes :: "string \<rightharpoonup> string"
  demand :: string
  demand_tx :: string

definition add_resource :: "string \<Rightarrow> string \<Rightarrow> known_state \<Rightarrow> known_state" where
  "add_resource t name s = s\<lparr>known_resources := (known_resources s)
     (t \<mapsto> std_set_insert name (case known_resources s t of None \<Rightarrow> [] | Some ns \<Rightarrow> ns))\<rparr>"

definition notify_on_demand :: "known_state \<Rightarrow> known_state" where
  "notify_on_demand s = s"

definition knows :: "known_state \<Rightarrow> string \<Rightarrow> string \<Rightarrow> bool" where
  "knows s t name \<longleftrightarrow> (case known_resources s t of None \<Rightarrow> False | Some ns \<Rightarrow> name \<in> set ns)"

definition known_ok :: "known_state \<Rightarrow> bool" where
  "known_ok s \<longleftrightarrow> (\<forall>t ns. known_resources s t = Some ns \<longrightarrow> std_set_ok ns)"

lemma add_resource_knows:
  assumes "known_ok s"
  shows "known_ok (add_resource t name s)"
    and "knows (add_resource t name s) u x \<longleftrightarrow> knows s u x \<or> u = t \<and> x = name"
proof -
  let ?ns = "case known_resources s t of None \<Rightarrow> [] | Some ns \<Rightarrow> ns"
  have ns: "std_set_ok ?ns" using assms sset.invar_empty by (auto simp: known_ok_def split: option.split)
  show "known_ok (add_resource t name s)"
    using assms sset.invar_insert [OF ns] by (simp add: known_ok_def add_resource_def)
  show "knows (add_resource t name s) u x \<longleftrightarrow> knows s u x \<or> u = t \<and> x = name"
    using sset.elems_insert [OF ns, of name]
    by (auto simp: knows_def add_resource_def split: option.splits)
qed

text \<open>\<^verbatim>\<open>Config\<close>: its builders, and the first request it constructs for a type.\<close>

definition construct_initial_request :: "string \<Rightarrow> bool \<Rightarrow> discovery_request" where
  "construct_initial_request request_type no_on_demand =
    (let r = empty_request\<lparr>req_node := Some ads_node\<rparr>
     in r\<lparr>req_type_url := req_type_url r @ request_type\<rparr>)"

end
