(* ===== verification/Local_Address.thy ===== *)
theory Local_Address
  imports Prelude
begin

text \<open>
  \<^verbatim>\<open>LocalUtil::getLocalAddress\<close> of \<^verbatim>\<open>anylink/local/util/LocalUtil.cpp\<close>: the socket calls it makes,
  in their order and with the bytes they are given, and what it prints and returns. The
  kernel is a parameter over a state \<open>'w\<close>; the conversions \<^verbatim>\<open>htons\<close> and \<^verbatim>\<open>inet_ntop\<close> of the C
  library are definitions. Machine integers keep their width, and the byte order of the
  machine is explicit because the address is stored without a conversion.
\<close>

unbundle bit_operations_syntax

section \<open>Byte order and text of an address\<close>

definition bytes16 :: "bool \<Rightarrow> 16 word \<Rightarrow> 8 word list" where
  "bytes16 little x = (let bs = [ucast (drop_bit 8 x), ucast x] in if little then rev bs else bs)"

definition bytes32 :: "bool \<Rightarrow> 32 word \<Rightarrow> 8 word list" where
  "bytes32 little x =
    (let bs = [ucast (drop_bit 24 x), ucast (drop_bit 16 x), ucast (drop_bit 8 x), ucast x]
     in if little then rev bs else bs)"

text \<open>\<^verbatim>\<open>htons\<close>: exchanges the two bytes on a little-endian machine.\<close>

definition htons :: "bool \<Rightarrow> 16 word \<Rightarrow> 16 word" where
  "htons little x = (if little then push_bit 8 x OR drop_bit 8 x else x)"

definition digit :: "nat \<Rightarrow> char" where
  "digit n = char_of (48 + n)"

fun decimal :: "nat \<Rightarrow> string" where
  "decimal n = (if n < 10 then [digit n] else decimal (n div 10) @ [digit (n mod 10)])"

declare decimal.simps [simp del]

fun dotted :: "8 word list \<Rightarrow> string" where
  "dotted [] = []"
| "dotted [b] = decimal (unat b)"
| "dotted (b # bs) = decimal (unat b) @ ''.'' @ dotted bs"

text \<open>
  \<^verbatim>\<open>inet_ntop(AF_INET, addr, buf, len)\<close>: the dotted text of the four bytes at \<^verbatim>\<open>addr\<close>, and the
  null pointer when text and terminator do not fit in \<open>len\<close> bytes.
\<close>

definition INET_ADDRSTRLEN :: nat where
  "INET_ADDRSTRLEN = 16"

definition inet_ntop :: "8 word list \<Rightarrow> nat \<Rightarrow> string option" where
  "inet_ntop bs len = (if length (dotted bs) < len then Some (dotted bs) else None)"

section \<open>The socket calls\<close>

record sockaddr_in =
  sin_family :: "16 word"
  sin_port :: "16 word"
  s_addr :: "32 word"

text \<open>
  The system calls, with the values they return; \<^verbatim>\<open>getsockname\<close> also leaves an address in the
  structure it is given, whatever it returns.
\<close>

record 'w socket_api =
  little_endian :: bool
  sys_socket :: "'w \<Rightarrow> int \<times> 'w"
  sys_connect :: "int \<Rightarrow> sockaddr_in \<Rightarrow> 'w \<Rightarrow> int \<times> 'w"
  sys_getsockname :: "int \<Rightarrow> sockaddr_in \<Rightarrow> 'w \<Rightarrow> int \<times> sockaddr_in \<times> 'w"
  sys_close :: "int \<Rightarrow> 'w \<Rightarrow> int \<times> 'w"

datatype sock_event =
    Socket int
  | Connect int sockaddr_in int
  | GetSockName int int
  | Close int
  | Stderr string
  | Stdout string

type_synonym 'w sock_state = "'w \<times> sock_event list"

definition AF_INET :: "16 word" where
  "AF_INET = 2"

definition INADDR_LOOPBACK :: "32 word" where
  "INADDR_LOOPBACK = 0x7f000001"

definition newline :: string where
  "newline = [CHR 0x0A]"

definition emit :: "sock_event \<Rightarrow> 'w sock_state \<Rightarrow> 'w sock_state" where
  "emit e st = (fst st, snd st @ [e])"

definition close_socket :: "'w socket_api \<Rightarrow> int \<Rightarrow> 'w sock_state \<Rightarrow> 'w sock_state" where
  "close_socket k fd st = emit (Close fd) (snd (sys_close k fd (fst st)), snd st)"

text \<open>The structure \<^verbatim>\<open>loopback\<close> as it is passed to \<^verbatim>\<open>connect\<close>.\<close>

definition loopback_addr :: "bool \<Rightarrow> sockaddr_in" where
  "loopback_addr little = \<lparr>sin_family = AF_INET, sin_port = htons little 9, s_addr = INADDR_LOOPBACK\<rparr>"

definition getLocalAddress :: "'w socket_api \<Rightarrow> 'w sock_state \<Rightarrow> string \<times> 'w sock_state" where
  "getLocalAddress k st =
    (let (sock, w1) = sys_socket k (fst st);
         st1 = emit (Socket sock) (w1, snd st);
         st2 = (if sock = -1 then emit (Stderr (''Could not socket'' @ newline)) st1 else st1);
         loopback = loopback_addr (little_endian k);
         (rc, w3) = sys_connect k sock loopback (fst st2);
         st3 = emit (Connect sock loopback rc) (w3, snd st2);
         st4 = (if rc = -1 then emit (Stderr (''Could not connect'' @ newline)) (close_socket k sock st3)
                else st3);
         (rc', loopback', w5) = sys_getsockname k sock loopback (fst st4);
         st5 = emit (GetSockName sock rc') (w5, snd st4);
         st6 = (if rc' = -1
                then emit (Stderr (''Could not getsockname'' @ newline)) (close_socket k sock st5)
                else st5);
         st7 = close_socket k sock st6;
         st8 = (case inet_ntop (bytes32 (little_endian k) (s_addr loopback')) INET_ADDRSTRLEN of
                  None \<Rightarrow> emit (Stderr (''Could not inet_ntop'' @ newline)) st7
                | Some buf \<Rightarrow> emit (Stdout (''Local ip address: '' @ buf @ newline)) st7)
     in (''0.0.0.0'', st8))"

section \<open>Lemmas\<close>

lemma length_decimal_byte: "n < 256 \<Longrightarrow> length (decimal n) \<le> 3"
proof -
  have 1: "length (decimal n) \<le> 1" if "n < 10" for n
    using that by (simp add: decimal.simps)
  have 2: "length (decimal n) \<le> 2" if "n < 100" for n
    using that 1 [of n] 1 [of "n div 10"] by (cases "n < 10") (auto simp: decimal.simps [of n])
  show "length (decimal n) \<le> 3" if "n < 256"
    using that 1 [of n] 2 [of "n div 10"] by (cases "n < 10") (auto simp: decimal.simps [of n])
qed

lemma length_decimal_word: "length (decimal (unat (b :: 8 word))) \<le> 3"
  by (rule length_decimal_byte) (use unsigned_less [of b, where ?'a = nat] in simp)

lemma length_bytes [simp]: "length (bytes16 little x) = 2" "length (bytes32 little y) = 4"
  by (simp_all add: bytes16_def bytes32_def Let_def)

text \<open>The dotted text of four bytes has at most fifteen characters, so it fits with its terminator.\<close>

lemma length_dotted: "length (dotted bs) \<le> 4 * length bs - 1"
proof (induction bs rule: dotted.induct)
  case (3 b c bs)
  then show ?case using length_decimal_word [of b] by simp
qed (use length_decimal_word in simp_all)

lemma inet_ntop_fits: "inet_ntop (bytes32 little x) INET_ADDRSTRLEN = Some (dotted (bytes32 little x))"
  using length_dotted [of "bytes32 little x"] by (simp add: inet_ntop_def INET_ADDRSTRLEN_def)

lemma htons_network_order:
  fixes x :: "16 word"
  shows "bytes16 little (htons little x) = [ucast (drop_bit 8 x), ucast x]"
proof -
  have "ucast (push_bit 8 x OR drop_bit 8 x) = (ucast (drop_bit 8 x) :: 8 word)"
    and "ucast (drop_bit 8 (push_bit 8 x OR drop_bit 8 x)) = (ucast x :: 8 word)"
    by (auto intro!: bit_eqI simp: bit_simps dest: bit_imp_le_length)
  then show ?thesis by (simp add: bytes16_def htons_def Let_def)
qed

lemmas word_bytes = bytes32_def loopback_addr_def INADDR_LOOPBACK_def Let_def

lemma loopback_bytes:
  "bytes16 little (sin_port (loopback_addr little)) = [0, 9]"
  "bytes32 little (s_addr (loopback_addr little)) = (if little then [1, 0, 0, 127] else [127, 0, 0, 1])"
  using htons_network_order [of little 9] by (simp_all add: word_bytes)

lemma emit_simps [simp]:
  "fst (emit e st) = fst st" "snd (emit e st) = snd st @ [e]"
  "snd (close_socket k fd st) = snd st @ [Close fd]"
  by (simp_all add: emit_def close_socket_def)

section \<open>What the call does\<close>

text \<open>
  C33. Whatever the kernel answers, the call makes the same calls in the same order and
  returns the unspecified address. It goes on after a failed \<^verbatim>\<open>socket\<close>, \<^verbatim>\<open>connect\<close> or \<^verbatim>\<open>getsockname\<close>,
  and closes the descriptor once more for every failure of the last two. The port reaches the
  wire as 9; the address, stored without conversion, is 127.0.0.1 on a big-endian machine and
  1.0.0.127 on a little-endian one. The text of the socket's own address always fits the
  buffer, so it is always printed and the last error branch is dead.
\<close>

theorem local_address_calls:
  "\<exists>fd rc rc' own. fst (getLocalAddress k (w, es)) = ''0.0.0.0'' \<and>
    snd (snd (getLocalAddress k (w, es))) = es @ [Socket fd] @
      (if fd = -1 then [Stderr (''Could not socket'' @ newline)] else []) @
      [Connect fd (loopback_addr (little_endian k)) rc] @
      (if rc = -1 then [Close fd, Stderr (''Could not connect'' @ newline)] else []) @
      [GetSockName fd rc'] @
      (if rc' = -1 then [Close fd, Stderr (''Could not getsockname'' @ newline)] else []) @
      [Close fd, Stdout (''Local ip address: '' @ dotted (bytes32 (little_endian k) own) @ newline)] \<and>
    length (dotted (bytes32 (little_endian k) own)) < INET_ADDRSTRLEN \<and>
    bytes16 (little_endian k) (sin_port (loopback_addr (little_endian k))) = [0, 9] \<and>
    bytes32 (little_endian k) (s_addr (loopback_addr (little_endian k))) =
      (if little_endian k then [1, 0, 0, 127] else [127, 0, 0, 1])"
proof -
  let ?le = "little_endian k" and ?to = "loopback_addr (little_endian k)"
  obtain fd w1 where 1: "sys_socket k w = (fd, w1)" by force
  define st2 where "st2 = (if fd = -1 then emit (Stderr (''Could not socket'' @ newline))
    (emit (Socket fd) (w1, es)) else emit (Socket fd) (w1, es))"
  obtain rc w3 where 2: "sys_connect k fd ?to (fst st2) = (rc, w3)" by force
  define st4 where "st4 = (if rc = -1 then emit (Stderr (''Could not connect'' @ newline))
    (close_socket k fd (emit (Connect fd ?to rc) (w3, snd st2))) else emit (Connect fd ?to rc) (w3, snd st2))"
  obtain rc' own w5 where 3: "sys_getsockname k fd ?to (fst st4) = (rc', own, w5)" using prod_cases3 by blast
  define st6 where "st6 = (if rc' = -1 then emit (Stderr (''Could not getsockname'' @ newline))
    (close_socket k fd (emit (GetSockName fd rc') (w5, snd st4))) else emit (GetSockName fd rc') (w5, snd st4))"
  have run: "getLocalAddress k (w, es) = (''0.0.0.0'', emit (Stdout (''Local ip address: '' @
      dotted (bytes32 ?le (s_addr own)) @ newline)) (close_socket k fd st6))"
    unfolding getLocalAddress_def inet_ntop_fits
    by (simp only: Let_def fst_conv snd_conv 1 2 3 case_prod_conv option.case flip: st2_def st4_def st6_def)
  have fits: "length (dotted (bytes32 ?le (s_addr own))) < INET_ADDRSTRLEN"
    using length_dotted [of "bytes32 ?le (s_addr own)"] by (simp add: INET_ADDRSTRLEN_def)
  show ?thesis
    unfolding run loopback_bytes
    by (intro exI [of _ fd] exI [of _ rc] exI [of _ rc'] exI [of _ "s_addr own"])
      (simp add: fits st2_def st4_def st6_def)
qed

end
