(* ===== verification/Anylink.thy ===== *)
theory Anylink
  imports Rpc_Stream Local_Info Local_Address
begin

text \<open>
  The anylink client: the subscriptions of \<^verbatim>\<open>anylink/grpc/subscription\<close>, the manager of
  \<^verbatim>\<open>AdsManager.cpp\<close> that opens one stream and subscribes to the four resource types in turn,
  the singleton of \<^verbatim>\<open>IstioLinkManager.cpp\<close>, and the worker of \<^verbatim>\<open>AdsConnection.cpp\<close>. The asynchronous
  gRPC call is used one operation at a time, each followed by \<^verbatim>\<open>cq_.Next\<close>, so it is a parameter
  with one function per operation and its completion; the kernel's socket calls are another.
  Both act on one state of the world outside the program. The log is kept: every use of
  \<^verbatim>\<open>GATEWAY_LOG\<close> is recorded with the logger pointer it is handed, which may be null; the lines of the
  response handlers are recorded with the response.
\<close>

section \<open>Subscriptions\<close>

datatype subscription =
    ClusterSubscription
  | ListenerSubscription
  | EndpointSubscription
  | RouteSubscription

definition listener_type_url :: string where
  "listener_type_url = ''type.googleapis.com/envoy.config.listener.v3.Listener''"

definition endpoint_type_url :: string where
  "endpoint_type_url = ''type.googleapis.com/envoy.config.endpoint.v3.ClusterLoadAssignment''"

definition route_type_url :: string where
  "route_type_url = ''type.googleapis.com/envoy.config.route.v3.RouteConfiguration''"

definition cds_type_url :: string where
  "cds_type_url = ''type.googleapis.com/envoy.config.cluster.v3.Cluster''"

text \<open>The field \<^verbatim>\<open>type_url_\<close> the constructors set, and \<^verbatim>\<open>getTypeUrl\<close>.\<close>

fun sub_type_url :: "subscription \<Rightarrow> string" where
  "sub_type_url ClusterSubscription = cds_type_url"
| "sub_type_url ListenerSubscription = listener_type_url"
| "sub_type_url EndpointSubscription = endpoint_type_url"
| "sub_type_url RouteSubscription = route_type_url"

definition cluster_makeRequest :: "node \<Rightarrow> discovery_request" where
  "cluster_makeRequest n = merge_node_into n (empty_request\<lparr>req_type_url := cds_type_url\<rparr>)"

definition listener_makeRequest :: "node \<Rightarrow> discovery_request" where
  "listener_makeRequest n = merge_node_into n (empty_request\<lparr>req_type_url := listener_type_url\<rparr>)"

definition endpoint_makeRequest :: "node \<Rightarrow> discovery_request" where
  "endpoint_makeRequest n = merge_node_into n (empty_request\<lparr>req_type_url := endpoint_type_url,
     req_resource_names := [''outbound|80||gateway-test.default.svc.cluster.local'']\<rparr>)"

definition route_makeRequest :: "node \<Rightarrow> discovery_request" where
  "route_makeRequest n = merge_node_into n (empty_request\<lparr>req_type_url := route_type_url,
     req_resource_names := [''80'']\<rparr>)"

text \<open>The virtual call \<^verbatim>\<open>sub->makeRequestDiscoveryService(node)\<close>.\<close>

fun makeRequestDiscoveryService :: "subscription \<Rightarrow> node \<Rightarrow> discovery_request" where
  "makeRequestDiscoveryService ClusterSubscription = cluster_makeRequest"
| "makeRequestDiscoveryService ListenerSubscription = listener_makeRequest"
| "makeRequestDiscoveryService EndpointSubscription = endpoint_makeRequest"
| "makeRequestDiscoveryService RouteSubscription = route_makeRequest"

section \<open>State\<close>

datatype logger = NoopLogger | UserLogger nat

text \<open>
  The lines of the manager and of the link, by the message of their \<^verbatim>\<open>GATEWAY_LOG\<close>; a flag is the one
  that chooses between the two messages of a completion. The printed tags are addresses and
  left out.
\<close>

datatype gateway_line =
    InitLine
  | StartLinkLine
  | StartClientLine node
  | AddSubscriptionLine string
  | StartCallLine bool
  | SubscribeLine string
  | WriteLine bool
  | ReadLine bool
  | AckLine bool
  | NackLine bool

record 'w async_rpc =
  start_call :: "'w \<Rightarrow> bool \<times> 'w"
  write_next :: "discovery_request \<Rightarrow> 'w \<Rightarrow> bool \<times> 'w"
  read_next :: "'w \<Rightarrow> discovery_response option \<times> 'w"

text \<open>A map value is a \<^verbatim>\<open>shared_ptr\<close>: \<open>Some None\<close> is a key with a null pointer.\<close>

record ads_manager =
  pilotUrl :: string
  localInfo :: local_info
  subscribe_map :: "string \<rightharpoonup> subscription option"

record link_manager =
  pilotAddr :: string
  link_nodeId :: string
  adsManager :: ads_manager

record 'w link_world =
  ads_logger :: "logger option"
  sub_logger :: "logger option"
  link_logger :: "logger option"
  link_instance :: "link_manager option"
  cq :: 'w
  cq_log :: "io_event list"
  sock_log :: "sock_event list"
  sub_lines :: "(string \<times> logger option \<times> discovery_response) list"
  gw_lines :: "(logger option \<times> gateway_line) list"

type_synonym 'w mgr_state = "ads_manager \<times> 'w link_world"

definition new_world :: "'w \<Rightarrow> 'w link_world" where
  "new_world w = \<lparr>ads_logger = None, sub_logger = None, link_logger = None, link_instance = None,
     cq = w, cq_log = [], sock_log = [], sub_lines = [], gw_lines = []\<rparr>"

definition gateway_log :: "logger option \<Rightarrow> gateway_line \<Rightarrow> 'w link_world \<Rightarrow> 'w link_world" where
  "gateway_log l x s = s\<lparr>gw_lines := gw_lines s @ [(l, x)]\<rparr>"

section \<open>Response handlers\<close>

text \<open>A handler writes the response, under the name of its class, to the shared logger of the subscriptions.\<close>

definition log_response :: "string \<Rightarrow> discovery_response \<Rightarrow> 'w link_world \<Rightarrow> 'w link_world" where
  "log_response tag x s = s\<lparr>sub_lines := sub_lines s @ [(tag, sub_logger s, x)]\<rparr>"

definition cluster_onResponse :: "discovery_response \<Rightarrow> 'w link_world \<Rightarrow> 'w link_world" where
  "cluster_onResponse x s = log_response ''[ClusterSubscription]'' x s"

definition listener_onResponse :: "discovery_response \<Rightarrow> 'w link_world \<Rightarrow> 'w link_world" where
  "listener_onResponse x s = log_response ''[ListenerSubscription]'' x s"

definition endpoint_onResponse :: "discovery_response \<Rightarrow> 'w link_world \<Rightarrow> 'w link_world" where
  "endpoint_onResponse x s = log_response ''[EndpointSubscription]'' x s"

definition route_onResponse :: "discovery_response \<Rightarrow> 'w link_world \<Rightarrow> 'w link_world" where
  "route_onResponse x s = log_response ''[RouterSubscription]'' x s"

text \<open>The virtual call \<^verbatim>\<open>sub->onResponseDiscoveryService(response)\<close>.\<close>

fun onResponseDiscoveryService ::
    "subscription \<Rightarrow> discovery_response \<Rightarrow> 'w link_world \<Rightarrow> 'w link_world" where
  "onResponseDiscoveryService ClusterSubscription = cluster_onResponse"
| "onResponseDiscoveryService ListenerSubscription = listener_onResponse"
| "onResponseDiscoveryService EndpointSubscription = endpoint_onResponse"
| "onResponseDiscoveryService RouteSubscription = route_onResponse"

section \<open>AdsManager\<close>

definition urlList :: "string list" where
  "urlList = [cds_type_url, listener_type_url, endpoint_type_url, route_type_url]"

definition AdsManager ::
    "'w socket_api \<Rightarrow> string \<Rightarrow> string \<Rightarrow> 'w link_world \<Rightarrow> 'w mgr_state" where
  "AdsManager k url nodeId s =
    (let (address, w, es) = getLocalAddress k (cq s, sock_log s);
         s1 = s\<lparr>cq := w, sock_log := es\<rparr>
     in (\<lparr>pilotUrl = url, localInfo = LocalInfo address ''????????????'' nodeId,
          subscribe_map = Map.empty\<rparr>,
         if ads_logger s1 = None then s1\<lparr>ads_logger := Some NoopLogger\<rparr> else s1))"

definition AdsManager_setLogger :: "logger option \<Rightarrow> 'w link_world \<Rightarrow> 'w link_world" where
  "AdsManager_setLogger l s = s\<lparr>ads_logger := (if l = None then Some NoopLogger else l)\<rparr>"

definition Subscription_setLogger :: "logger option \<Rightarrow> 'w link_world \<Rightarrow> 'w link_world" where
  "Subscription_setLogger l s = s\<lparr>sub_logger := (if l = None then Some NoopLogger else l)\<rparr>"

text \<open>\<^verbatim>\<open>subscribe_map.insert\<close> keeps an entry that is there.\<close>

definition addSubscription :: "subscription \<Rightarrow> 'w mgr_state \<Rightarrow> 'w mgr_state" where
  "addSubscription sub ms = (let (m, s) = ms in
     (m\<lparr>subscribe_map := map_insert (sub_type_url sub) (Some sub) (subscribe_map m)\<rparr>,
      gateway_log (ads_logger s) (AddSubscriptionLine (sub_type_url sub)) s))"

text \<open>\<^verbatim>\<open>subscribe_map[url]\<close>: the pointer at the key, inserting a null one where there is none.\<close>

definition subscribe_at :: "string \<Rightarrow> ads_manager \<Rightarrow> subscription option \<times> ads_manager" where
  "subscribe_at url m = (case subscribe_map m url of
      Some p \<Rightarrow> (p, m)
    | None \<Rightarrow> (None, m\<lparr>subscribe_map := (subscribe_map m)(url \<mapsto> None)\<rparr>))"

definition getNode :: "ads_manager \<Rightarrow> node" where
  "getNode m = li_node (localInfo m)"

definition startcall :: "'w async_rpc \<Rightarrow> 'w link_world \<Rightarrow> 'w link_world" where
  "startcall g s = (let (ok, w) = start_call g (cq s) in
     gateway_log (ads_logger s) (StartCallLine ok) (s\<lparr>cq := w, cq_log := cq_log s @ [Opened ok]\<rparr>))"

text \<open>\<^verbatim>\<open>rpc->Write\<close> with its completion, and the line that reports it.\<close>

definition write_request :: "'w async_rpc \<Rightarrow> (bool \<Rightarrow> gateway_line) \<Rightarrow> discovery_request \<Rightarrow>
    'w link_world \<Rightarrow> 'w link_world" where
  "write_request g line r s = (let (ok, w) = write_next g r (cq s) in
     gateway_log (ads_logger s) (line ok) (s\<lparr>cq := w, cq_log := cq_log s @ [Wrote r]\<rparr>))"

definition initSubscribe ::
    "'w async_rpc \<Rightarrow> subscription \<Rightarrow> 'w mgr_state \<Rightarrow> discovery_request \<times> 'w mgr_state" where
  "initSubscribe g sub ms = (let (m, s) = ms; s1 = Subscription_setLogger (ads_logger s) s;
       request = makeRequestDiscoveryService sub (getNode m)
     in (request, m, write_request g WriteLine request s1))"

text \<open>
  \<^verbatim>\<open>receiveADS\<close>: a read that fails leaves the response as it was; one that succeeds hands it to
  the subscription of its type. The result is always false.
\<close>

definition receiveADS :: "'w async_rpc \<Rightarrow> discovery_response \<Rightarrow> 'w mgr_state \<Rightarrow>
    (fault \<times> 'w mgr_state) + discovery_response \<times> 'w mgr_state" where
  "receiveADS g response ms = (let (m, s) = ms in
    case read_next g (cq s) of
      (None, w) \<Rightarrow> Inr (response, m,
        gateway_log (ads_logger s) (ReadLine False) (s\<lparr>cq := w, cq_log := cq_log s @ [ReadEnd]\<rparr>))
    | (Some r, w) \<Rightarrow>
        let s1 = gateway_log (ads_logger s) (ReadLine True) (s\<lparr>cq := w, cq_log := cq_log s @ [ReadMsg r]\<rparr>);
            (p, m1) = subscribe_at (resp_type_url r) m
        in case p of None \<Rightarrow> Inl (NullSubscription, m1, s1) 
             | Some sub \<Rightarrow> Inr (r, m1, onResponseDiscoveryService sub r s1))"

definition sendACK :: "'w async_rpc \<Rightarrow> discovery_request \<Rightarrow> discovery_response \<Rightarrow> 'w link_world \<Rightarrow>
    discovery_request \<times> 'w link_world" where
  "sendACK g request response s =
    (let r = request\<lparr>req_version_info := resp_version_info response,
               req_response_nonce := resp_nonce response\<rparr>
     in (r, write_request g AckLine r s))"

definition sendNACK :: "'w async_rpc \<Rightarrow> discovery_request \<Rightarrow> discovery_response \<Rightarrow> 'w link_world \<Rightarrow>
    discovery_request \<times> 'w link_world" where
  "sendNACK g request response s =
    (let r = request\<lparr>req_response_nonce := resp_nonce response\<rparr> in (r, write_request g NackLine r s))"

text \<open>\<^verbatim>\<open>getSubscribeMap\<close>.\<close>

definition getSubscribeMap :: "ads_manager \<Rightarrow> string \<rightharpoonup> subscription option" where
  "getSubscribeMap m = subscribe_map m"

text \<open>
  \<^verbatim>\<open>startClient\<close>: its two arrays of four messages and their index; one round of its loop, with
  the request as \<^verbatim>\<open>sendACK\<close> left it; the assignments that end the round; and the loop.
\<close>

record call_arrays =
  requestArray :: "discovery_request list"
  responseArray :: "discovery_response list"
  arr_index :: int

definition new_arrays :: call_arrays where
  "new_arrays = \<lparr>requestArray = replicate 4 empty_request, responseArray = replicate 4 empty_response,
     arr_index = 0\<rparr>"

definition subscribeUrl :: "'w async_rpc \<Rightarrow> string \<Rightarrow> 'w mgr_state \<Rightarrow>
    (fault \<times> 'w mgr_state) + discovery_request \<times> discovery_response \<times> 'w mgr_state" where
  "subscribeUrl g url ms = (let (p, m1) = subscribe_at url (fst ms); ms1 = (m1, snd ms) in
    case p of
      None \<Rightarrow> Inl (NullSubscription, ms1)
    | Some sub \<Rightarrow>
        let s1 = gateway_log (ads_logger (snd ms)) (SubscribeLine (sub_type_url sub)) (snd ms);
            (request, ms2) = initSubscribe g sub (m1, s1) in
        bind_res (receiveADS g empty_response ms2)
          (\<lambda>(response, m3, s3). let (request', s4) = sendACK g request response s3
             in Inr (request', response, m3, s4)))"

definition keepMessages ::
    "discovery_request \<Rightarrow> discovery_response \<Rightarrow> call_arrays \<Rightarrow> call_arrays option" where
  "keepMessages request response a =
    (case array_put (arr_index a) request (requestArray a) of
       None \<Rightarrow> None
     | Some qs \<Rightarrow> (case array_put (arr_index a) response (responseArray a) of
         None \<Rightarrow> None
       | Some rs \<Rightarrow> Some \<lparr>requestArray = qs, responseArray = rs, arr_index = arr_index a + 1\<rparr>))"

fun subscribeAll :: "'w async_rpc \<Rightarrow> string list \<Rightarrow> call_arrays \<Rightarrow> 'w mgr_state \<Rightarrow>
    (fault \<times> 'w mgr_state) + call_arrays \<times> 'w mgr_state" where
  "subscribeAll g [] a ms = Inr (a, ms)"
| "subscribeAll g (url # urls) a ms =
    bind_res (subscribeUrl g url ms) (\<lambda>(request, response, ms1).
      case keepMessages request response a of
        None \<Rightarrow> Inl (ArrayOverrun, ms1)
      | Some a1 \<Rightarrow> subscribeAll g urls a1 ms1)"

definition startClient :: "'w async_rpc \<Rightarrow> 'w mgr_state \<Rightarrow> 'w mgr_state call" where
  "startClient g ms = (let (m, s) = ms;
       s1 = startcall g (gateway_log (ads_logger s) (StartClientLine (getNode m)) s)
     in bind_res (subscribeAll g urlList new_arrays (m, s1)) (\<lambda>(a, ms1). Inr ms1))"

section \<open>IstioLinkManager\<close>

definition IstioLinkManager ::
    "'w socket_api \<Rightarrow> string \<Rightarrow> string \<Rightarrow> 'w link_world \<Rightarrow> link_manager \<times> 'w link_world" where
  "IstioLinkManager k addr nodeId s = (let (m, s1) = AdsManager k addr nodeId s in
     (\<lparr>pilotAddr = addr, link_nodeId = nodeId, adsManager = m\<rparr>, s1\<lparr>link_logger := Some NoopLogger\<rparr>))"

text \<open>
  The two forms of \<^verbatim>\<open>init\<close>, of which the second takes the address from the variable \<^verbatim>\<open>ISTIO_ADDRESS\<close>
  (\<open>env\<close>, if it is set). Their steps in common: the instance, created unless there is one; the
  choice of the logger; the four subscriptions.
\<close>

definition createInstance ::
    "'w socket_api \<Rightarrow> string \<Rightarrow> string \<Rightarrow> 'w link_world \<Rightarrow> link_manager \<times> 'w link_world" where
  "createInstance k addr nodeId s =
     (case link_instance s of Some lm \<Rightarrow> (lm, s) | None \<Rightarrow> IstioLinkManager k addr nodeId s)"

definition chooseLogger :: "logger option \<Rightarrow> 'w link_world \<Rightarrow> 'w link_world" where
  "chooseLogger lg s = (if lg = None then s\<lparr>link_logger := Some NoopLogger\<rparr>
     else AdsManager_setLogger lg (s\<lparr>link_logger := lg\<rparr>))"

definition addSubscriptions :: "link_manager \<times> 'w link_world \<Rightarrow> 'w link_world" where
  "addSubscriptions ls = (let (lm, s) = ls;
       (m, s1) = addSubscription RouteSubscription (addSubscription EndpointSubscription
         (addSubscription ListenerSubscription (addSubscription ClusterSubscription (adsManager lm, s))))
     in s1\<lparr>link_instance := Some (lm\<lparr>adsManager := m\<rparr>)\<rparr>)"

definition init ::
    "'w socket_api \<Rightarrow> string \<Rightarrow> string \<Rightarrow> logger option \<Rightarrow> 'w link_world \<Rightarrow> 'w link_world" where
  "init k addr nodeId lg s =
    (let (lm, s1) = createInstance k addr nodeId (gateway_log lg InitLine s)
     in addSubscriptions (lm, chooseLogger lg s1))"

definition init_env :: "'w socket_api \<Rightarrow> string option \<Rightarrow> string \<Rightarrow> logger option \<Rightarrow>
    'w link_world \<Rightarrow> 'w link_world" where
  "init_env k env nodeId lg s =
    (let path = (case env of None \<Rightarrow> ''istiod.istio-system.svc.cluster.local:15010'' | Some a \<Rightarrow> a);
         (lm, s1) = createInstance k path nodeId (gateway_log lg InitLine s);
         s2 = chooseLogger lg s1
     in addSubscriptions (lm, gateway_log (link_logger s2) InitLine s2))"

definition getIstioLinkManager :: "'w link_world \<Rightarrow> link_manager option" where
  "getIstioLinkManager s = link_instance s"

text \<open>\<^verbatim>\<open>getIstioLinkManager()->startLink()\<close>.\<close>

definition startLink :: "'w async_rpc \<Rightarrow> 'w link_world \<Rightarrow> 'w link_world call" where
  "startLink g s = (case getIstioLinkManager s of
      None \<Rightarrow> halt NullInstance s
    | Some lm \<Rightarrow>
        (let store = (\<lambda>ms. (snd ms)\<lparr>link_instance := Some (lm\<lparr>adsManager := fst ms\<rparr>)\<rparr>) in
         case startClient g (adsManager lm, gateway_log (link_logger s) StartLinkLine s) of
           Inl (e, ms) \<Rightarrow> Inl (e, store ms)
         | Inr ms \<Rightarrow> Inr (store ms)))"

section \<open>The worker\<close>

text \<open>
  \<^verbatim>\<open>IstioCallable\<close>: its own subscription map, which nothing fills, and the locals of \<^verbatim>\<open>call\<close>. Its
  \<^verbatim>\<open>receiveADS\<close>, \<^verbatim>\<open>sendACK\<close> and \<^verbatim>\<open>sendNACK\<close> return at once and leave the messages they are given by
  reference as they are.
\<close>

record callable =
  call_map :: "string \<rightharpoonup> subscription option"
  call_requests :: "discovery_request list"
  call_responses :: "discovery_response list"
  call_index :: int

definition callable_start :: "(string \<rightharpoonup> subscription option) \<Rightarrow> callable" where
  "callable_start h = \<lparr>call_map = h, call_requests = replicate 4 empty_request,
     call_responses = replicate 4 empty_response, call_index = 0\<rparr>"

definition callable_receiveADS ::
    "discovery_response \<Rightarrow> subscription \<Rightarrow> bool \<times> discovery_response" where
  "callable_receiveADS response sub = (False, response)"

definition callable_sendACK :: "discovery_request \<Rightarrow> discovery_response \<Rightarrow> discovery_request" where
  "callable_sendACK request response = request"

definition callable_sendNACK :: "discovery_request \<Rightarrow> discovery_response \<Rightarrow> discovery_request" where
  "callable_sendNACK request response = request"

text \<open>
  The range-for over \<^verbatim>\<open>urlList\<close>, then the \<^verbatim>\<open>while(true)\<close>, which the fuel bounds. The null subscription is
  dereferenced in the argument \<^verbatim>\<open>sub->type_url_\<close> of the line's \<^verbatim>\<open>GATEWAY_LOG\<close>: that macro belongs to the
  host program and is not part of the repository; the model assumes that it evaluates its
  arguments.
\<close>

fun callRound :: "string list \<Rightarrow> callable \<Rightarrow> callable call" where
  "callRound [] c = Inr c"
| "callRound (url # urls) c =
    (case call_map c url of
       None \<Rightarrow> halt NullSubscription (c\<lparr>call_map := (call_map c)(url \<mapsto> None)\<rparr>)
     | Some None \<Rightarrow> halt NullSubscription c
     | Some (Some sub) \<Rightarrow>
         (case (array_at (call_index c) (call_requests c), array_at (call_index c) (call_responses c)) of
            (Some request, Some response) \<Rightarrow>
              let i = nat (call_index c);
                  response1 = snd (callable_receiveADS response sub);
                  request1 = callable_sendACK request response1
              in callRound urls (c\<lparr>call_requests := (call_requests c)[i := request1],
                   call_responses := (call_responses c)[i := response1], call_index := call_index c + 1\<rparr>)
          | _ \<Rightarrow> halt ArrayOverrun c))"

fun callLoop :: "nat \<Rightarrow> callable \<Rightarrow> callable call" where
  "callLoop 0 c = halt OutOfFuel c"
| "callLoop (Suc n) c = bind_res (callRound urlList c) (\<lambda>c1. callLoop n (c1\<lparr>call_index := 0\<rparr>))"

definition IstioCallable_call :: "nat \<Rightarrow> (string \<rightharpoonup> subscription option) \<Rightarrow> callable call" where
  "IstioCallable_call n h = callLoop n (callable_start h)"

end
