(* ===== verification/Anylink_Exchange.thy ===== *)
theory Anylink_Exchange
  imports Anylink
begin

text \<open>
  The library of the anylink client: the contract of a subscription as a locale with its four
  providers, the exchange the manager holds with the server round by round and what its
  message arrays hold, the singleton's initialisation, the rounds of the worker, and the faults
  either can reach.
\<close>

section \<open>The contract of a subscription\<close>

text \<open>The answer to a response: what \<^verbatim>\<open>sendACK\<close> makes of a request.\<close>

definition acked :: "discovery_request \<Rightarrow> discovery_response \<Rightarrow> discovery_request" where
  "acked q x = q\<lparr>req_version_info := resp_version_info x, req_response_nonce := resp_nonce x\<rparr>"

locale subscription_contract =
  fixes url :: string and make :: "node \<Rightarrow> discovery_request"
  assumes make_type: "req_type_url (make n) = url"
    and make_node: "req_node (make n) = Some n"
    and make_fresh: "req_version_info (make n) = [] \<and> req_response_nonce (make n) = [] \<and>
          req_error_detail (make n) = None"
    and make_names: "req_resource_names (make n) = req_resource_names (make n')"
begin

lemma acked_subscription:
  "req_type_url (acked (make n) x) = url" "req_node (acked (make n) x) = Some n"
  "req_resource_names (acked (make n) x) = req_resource_names (make n')"
  "req_error_detail (acked (make n) x) = None"
  using make_names [of n n'] by (simp_all add: acked_def make_type make_node make_fresh)

end

lemmas make_request_defs = cluster_makeRequest_def listener_makeRequest_def endpoint_makeRequest_def
  route_makeRequest_def

interpretation cds: subscription_contract cds_type_url cluster_makeRequest
  by unfold_locales (simp_all add: make_request_defs empty_request_def)

interpretation lds: subscription_contract listener_type_url listener_makeRequest
  by unfold_locales (simp_all add: make_request_defs empty_request_def)

interpretation eds: subscription_contract endpoint_type_url endpoint_makeRequest
  by unfold_locales (simp_all add: make_request_defs empty_request_def)

interpretation rds: subscription_contract route_type_url route_makeRequest
  by unfold_locales (simp_all add: make_request_defs empty_request_def)

lemma makeRequest_contract:
  "subscription_contract (sub_type_url sub) (makeRequestDiscoveryService sub)"
  by (cases sub)
    (simp_all add: cds.subscription_contract_axioms lds.subscription_contract_axioms
      eds.subscription_contract_axioms rds.subscription_contract_axioms)

lemmas makeRequest_type = subscription_contract.make_type [OF makeRequest_contract]
  and makeRequest_node = subscription_contract.make_node [OF makeRequest_contract]
  and makeRequest_fresh = subscription_contract.make_fresh [OF makeRequest_contract]
  and acked_makeRequest = subscription_contract.acked_subscription [OF makeRequest_contract]

section \<open>The subscription map\<close>

definition all_subscriptions :: "subscription list" where
  "all_subscriptions = [ClusterSubscription, ListenerSubscription, EndpointSubscription, RouteSubscription]"

lemma urlList_subscriptions: "urlList = map sub_type_url all_subscriptions"
  by (simp add: urlList_def all_subscriptions_def)

lemma set_all_subscriptions: "set all_subscriptions = UNIV"
  using subscription.exhaust by (auto simp: all_subscriptions_def)

text \<open>The order of subscription, in which the manager works through the types.\<close>

fun sub_rank :: "subscription \<Rightarrow> nat" where
  "sub_rank ClusterSubscription = 0"
| "sub_rank ListenerSubscription = 1"
| "sub_rank EndpointSubscription = 2"
| "sub_rank RouteSubscription = 3"

lemma sub_rank_inj: "sub_rank a = sub_rank b \<Longrightarrow> a = b"
  by (cases a; cases b) simp_all

instantiation subscription :: linorder
begin

definition less_eq_subscription :: "subscription \<Rightarrow> subscription \<Rightarrow> bool" where
  "less_eq_subscription a b \<longleftrightarrow> sub_rank a \<le> sub_rank b"

definition less_subscription :: "subscription \<Rightarrow> subscription \<Rightarrow> bool" where
  "less_subscription a b \<longleftrightarrow> sub_rank a < sub_rank b"

instance
  by standard (auto simp: less_eq_subscription_def less_subscription_def intro: sub_rank_inj)

end

lemma all_subscriptions_sorted: "sorted_list_of_set (UNIV :: subscription set) = all_subscriptions"
proof -
  have "sorted all_subscriptions" and "distinct all_subscriptions"
    by (simp_all add: all_subscriptions_def less_eq_subscription_def)
  then show ?thesis by (metis set_all_subscriptions sorted_list_of_set.idem_if_sorted_distinct)
qed

lemma sub_type_url_inj: "sub_type_url a = sub_type_url b \<longleftrightarrow> a = b"
  by (cases a; cases b)
    (simp_all add: cds_type_url_def listener_type_url_def endpoint_type_url_def route_type_url_def)

definition ready :: "ads_manager \<Rightarrow> bool" where
  "ready m \<longleftrightarrow> (\<forall>sub. subscribe_map m (sub_type_url sub) = Some (Some sub)) \<and>
     (\<forall>t. t \<notin> set urlList \<longrightarrow> subscribe_map m t = None)"

lemma ready_at: "ready m \<Longrightarrow> subscribe_at (sub_type_url sub) m = (Some sub, m)"
  by (simp add: ready_def subscribe_at_def)

lemma ready_known:
  assumes "ready m"
  shows "t \<in> set urlList \<Longrightarrow> \<exists>sub. subscribe_at t m = (Some sub, m) \<and> sub_type_url sub = t"
    and "t \<notin> set urlList \<Longrightarrow> fst (subscribe_at t m) = None"
proof -
  show "\<exists>sub. subscribe_at t m = (Some sub, m) \<and> sub_type_url sub = t" if "t \<in> set urlList"
  proof -
    from that obtain sub where "t = sub_type_url sub" by (auto simp: urlList_subscriptions)
    with ready_at [OF assms] show ?thesis by blast
  qed
  show "fst (subscribe_at t m) = None" if "t \<notin> set urlList"
    using assms that by (simp add: ready_def subscribe_at_def)
qed

section \<open>Log lines\<close>

lemma gateway_log_frame [simp]:
  "ads_logger (gateway_log l x s) = ads_logger s" "sub_logger (gateway_log l x s) = sub_logger s"
  "link_logger (gateway_log l x s) = link_logger s" "link_instance (gateway_log l x s) = link_instance s"
  "cq (gateway_log l x s) = cq s" "cq_log (gateway_log l x s) = cq_log s"
  "sock_log (gateway_log l x s) = sock_log s" "sub_lines (gateway_log l x s) = sub_lines s"
  "gw_lines (gateway_log l x s) = gw_lines s @ [(l, x)]"
  by (simp_all add: gateway_log_def)

lemma write_request_frame [simp]:
  "cq_log (write_request g line q s) = cq_log s @ [Wrote q]"
  "sub_lines (write_request g line q s) = sub_lines s" "ads_logger (write_request g line q s) = ads_logger s"
  "sub_logger (write_request g line q s) = sub_logger s" "link_logger (write_request g line q s) = link_logger s"
  "link_instance (write_request g line q s) = link_instance s"
  "gw_lines (write_request g line q s) = gw_lines s @ [(ads_logger s, line (fst (write_next g q (cq s))))]"
  by (simp_all add: write_request_def split: prod.split)

lemma setLogger_frame [simp]:
  "cq_log (Subscription_setLogger l s) = cq_log s" "sub_lines (Subscription_setLogger l s) = sub_lines s"
  "ads_logger (Subscription_setLogger l s) = ads_logger s" "link_logger (Subscription_setLogger l s) = link_logger s"
  "link_instance (Subscription_setLogger l s) = link_instance s" "gw_lines (Subscription_setLogger l s) = gw_lines s"
  "sub_logger (Subscription_setLogger l s) \<noteq> None"
  by (auto simp: Subscription_setLogger_def)

lemma startcall_frame [simp]:
  "cq_log (startcall g s) = cq_log s @ [Opened (fst (start_call g (cq s)))]"
  "sub_lines (startcall g s) = sub_lines s" "ads_logger (startcall g s) = ads_logger s"
  "link_logger (startcall g s) = link_logger s" "link_instance (startcall g s) = link_instance s"
  "gw_lines (startcall g s) = gw_lines s @ [(ads_logger s, StartCallLine (fst (start_call g (cq s))))]"
  by (simp_all add: startcall_def split: prod.split)

section \<open>The exchange with the server\<close>

text \<open>What one round logs when it completes: subscribe, read, acknowledge what was read.\<close>

definition dialogue :: "node \<Rightarrow> subscription \<Rightarrow> discovery_response option \<Rightarrow> io_event list" where
  "dialogue n sub r = (let q = makeRequestDiscoveryService sub n in
     [Wrote q, case r of None \<Rightarrow> ReadEnd | Some x \<Rightarrow> ReadMsg x,
      Wrote (acked q (case r of None \<Rightarrow> empty_response | Some x \<Rightarrow> x))])"

definition dialogues :: "node \<Rightarrow> subscription list \<Rightarrow> discovery_response option list \<Rightarrow> io_event list" where
  "dialogues n subs rs = concat (map (\<lambda>(sub, r). dialogue n sub r) (zip subs rs))"

lemma dialogues_simps [simp]:
  "dialogues n [] rs = []" "dialogues n subs [] = []"
  "dialogues n (sub # subs) (r # rs) = dialogue n sub r @ dialogues n subs rs"
  by (simp_all add: dialogues_def)

definition known_answer :: "discovery_response option \<Rightarrow> bool" where
  "known_answer r \<longleftrightarrow> (case r of None \<Rightarrow> True | Some x \<Rightarrow> resp_type_url x \<in> set urlList)"

text \<open>
  A line of a response handler is right when it was written by the handler of the response's
  own type and the subscriptions had a logger. \<open>hands_over s s' es\<close>: from \<open>s\<close> to \<open>s'\<close> every response
  read in \<open>es\<close> was handed over once, in order, and its line is right.
\<close>

fun handler_tag :: "subscription \<Rightarrow> string" where
  "handler_tag ClusterSubscription = ''[ClusterSubscription]''"
| "handler_tag ListenerSubscription = ''[ListenerSubscription]''"
| "handler_tag EndpointSubscription = ''[EndpointSubscription]''"
| "handler_tag RouteSubscription = ''[RouterSubscription]''"

lemma onResponse_eq: "onResponseDiscoveryService sub x s = log_response (handler_tag sub) x s"
  by (cases sub) (simp_all add: cluster_onResponse_def listener_onResponse_def endpoint_onResponse_def
      route_onResponse_def)

fun own_handler :: "string \<times> logger option \<times> discovery_response \<Rightarrow> bool" where
  "own_handler (tag, lg, x) \<longleftrightarrow> lg \<noteq> None \<and>
     (\<exists>sub. tag = handler_tag sub \<and> sub_type_url sub = resp_type_url x)"

definition hands_over :: "'w link_world \<Rightarrow> 'w link_world \<Rightarrow> io_event list \<Rightarrow> bool" where
  "hands_over s s' es \<longleftrightarrow> (\<exists>ls. sub_lines s' = sub_lines s @ ls \<and> map (\<lambda>(tag, lg, x). x) ls = reads_of es \<and>
     list_all own_handler ls)"

lemma hands_over_refl: "sub_lines s' = sub_lines s \<Longrightarrow> reads_of es = [] \<Longrightarrow> hands_over s s' es"
  by (simp add: hands_over_def)

lemma hands_over_trans:
  assumes "hands_over s s1 es" and "hands_over s1 s2 fs"
  shows "hands_over s s2 (es @ fs)"
proof -
  obtain ls ls' where "sub_lines s1 = sub_lines s @ ls" "map (\<lambda>(tag, lg, x). x) ls = reads_of es"
    "list_all own_handler ls" "sub_lines s2 = sub_lines s1 @ ls'" "map (\<lambda>(tag, lg, x). x) ls' = reads_of fs"
    "list_all own_handler ls'"
    using assms by (auto simp: hands_over_def)
  then show ?thesis unfolding hands_over_def by (intro exI [of _ "ls @ ls'"]) simp
qed

definition answer_of :: "discovery_response option \<Rightarrow> discovery_response" where
  "answer_of r = (case r of None \<Rightarrow> empty_response | Some x \<Rightarrow> x)"

text \<open>What the call answers to some read.\<close>

definition sent_by :: "'w async_rpc \<Rightarrow> discovery_response option \<Rightarrow> bool" where
  "sent_by g r \<longleftrightarrow> (\<exists>w. fst (read_next g w) = r)"

text \<open>The request a round leaves in its array.\<close>

definition round_request :: "node \<Rightarrow> subscription \<Rightarrow> discovery_response option \<Rightarrow> discovery_request" where
  "round_request n sub r = acked (makeRequestDiscoveryService sub n) (answer_of r)"

lemma subscribeUrl_outcome:
  assumes "ready m"
  obtains
    (known) r s' where "known_answer r"
      and "subscribeUrl g (sub_type_url sub) (m, s) = Inr (round_request (getNode m) sub r, answer_of r, m, s')"
      and "cq_log s' = cq_log s @ dialogue (getNode m) sub r" and "hands_over s s' (dialogue (getNode m) sub r)"
  | (unknown) x m' s' where "sent_by g (Some x)" and "resp_type_url x \<notin> set urlList"
      and "subscribeUrl g (sub_type_url sub) (m, s) = Inl (NullSubscription, m', s')"
      and "cq_log s' = cq_log s @ [Wrote (makeRequestDiscoveryService sub (getNode m)), ReadMsg x]"
proof -
  let ?q = "makeRequestDiscoveryService sub (getNode m)"
  let ?s0 = "gateway_log (ads_logger s) (SubscribeLine (sub_type_url sub)) s"
  let ?s1 = "write_request g WriteLine ?q (Subscription_setLogger (ads_logger s) ?s0)"
  obtain r w where rw: "read_next g (cq ?s1) = (r, w)" by force
  have eq: "subscribeUrl g (sub_type_url sub) (m, s) = bind_res (receiveADS g empty_response (m, ?s1))
      (\<lambda>(response, m3, s3). let (q, s4) = sendACK g ?q response s3 in Inr (q, response, m3, s4))"
    by (simp add: subscribeUrl_def ready_at [OF assms] initSubscribe_def Let_def)
  note round = eq receiveADS_def known_answer_def sendACK_def dialogue_def acked_def
    round_request_def answer_of_def onResponse_eq log_response_def hands_over_def Let_def
  have lg: "sub_logger ?s1 \<noteq> None" by (simp add: setLogger_frame(7))
  let ?full = "\<lambda>r. \<exists>s'. subscribeUrl g (sub_type_url sub) (m, s) =
      Inr (round_request (getNode m) sub r, answer_of r, m, s') \<and>
    cq_log s' = cq_log s @ dialogue (getNode m) sub r \<and> hands_over s s' (dialogue (getNode m) sub r)"
  have full: thesis if "known_answer r" "?full r" using known that by blast
  show ?thesis
  proof (cases r)
    case None
    with rw show ?thesis by (intro full) (simp_all add: round)
  next
    case (Some x)
    show ?thesis
    proof (cases "resp_type_url x \<in> set urlList")
      case True
      with ready_known(1) [OF assms True] rw Some lg have "?full r" by (auto simp: round)
      with True Some show ?thesis by (intro full) (simp_all add: known_answer_def)
    next
      case False
      obtain m1 where "subscribe_at (resp_type_url x) m = (None, m1)"
        using ready_known(2) [OF assms False] by (metis prod.collapse)
      then have "\<exists>m' s'. subscribeUrl g (sub_type_url sub) (m, s) = Inl (NullSubscription, m', s') \<and>
          cq_log s' = cq_log s @ [Wrote ?q, ReadMsg x]"
        using rw Some by (simp add: eq receiveADS_def Let_def)
      moreover have "sent_by g (Some x)" using rw Some unfolding sent_by_def by (metis fst_conv)
      ultimately show ?thesis using unknown False by blast
    qed
  qed
qed

text \<open>The arrays of \<^verbatim>\<open>startClient\<close> when \<open>k\<close> rounds are behind it.\<close>

definition arrays_at :: "nat \<Rightarrow> call_arrays \<Rightarrow> bool" where
  "arrays_at k a \<longleftrightarrow> arr_index a = int k \<and> length (requestArray a) = 4 \<and> length (responseArray a) = 4"

definition filled :: "nat \<Rightarrow> discovery_request list \<Rightarrow> discovery_response list \<Rightarrow> call_arrays \<Rightarrow> call_arrays" where
  "filled k qs rs a = \<lparr>requestArray = take k (requestArray a) @ qs @ drop (k + length qs) (requestArray a),
     responseArray = take k (responseArray a) @ rs @ drop (k + length rs) (responseArray a),
     arr_index = int (k + length qs)\<rparr>"

lemma arrays_new: "arrays_at 0 new_arrays"
  by (simp add: arrays_at_def new_arrays_def)

lemma filled_none: "arrays_at k a \<Longrightarrow> filled k [] [] a = a"
  by (simp add: filled_def arrays_at_def)

lemma keepMessages_at:
  assumes "arrays_at k a" and "k < 4"
  obtains a1 where "keepMessages q r a = Some a1" and "arrays_at (Suc k) a1"
    and "length qs = length rs \<Longrightarrow> filled (Suc k) qs rs a1 = filled k (q # qs) (r # rs) a"
proof
  let ?a1 = "\<lparr>requestArray = (requestArray a)[k := q], responseArray = (responseArray a)[k := r],
    arr_index = int (Suc k)\<rparr>"
  show "keepMessages q r a = Some ?a1" and "arrays_at (Suc k) ?a1"
    using assms by (simp_all add: keepMessages_def arrays_at_def)
  show "filled (Suc k) qs rs ?a1 = filled k (q # qs) (r # rs) a" if "length qs = length rs"
    using assms that by (simp add: filled_def arrays_at_def filled_snoc)
qed

lemma subscribeAll_outcome:
  assumes "ready m" and "arrays_at k a" and "k + length subs \<le> 4"
  shows "\<exists>rs. (\<forall>r\<in>set rs. known_answer r) \<and> ((\<exists>s'. length rs = length subs \<and>
      subscribeAll g (map sub_type_url subs) a (m, s) =
        Inr (filled k (map2 (round_request (getNode m)) subs rs) (map answer_of rs) a, m, s') \<and>
      cq_log s' = cq_log s @ dialogues (getNode m) subs rs \<and> hands_over s s' (dialogues (getNode m) subs rs)) \<or>
    (\<exists>x m' s'. length rs < length subs \<and> sent_by g (Some x) \<and> resp_type_url x \<notin> set urlList \<and>
      subscribeAll g (map sub_type_url subs) a (m, s) = Inl (NullSubscription, m', s') \<and>
      cq_log s' = cq_log s @ dialogues (getNode m) subs rs @
        [Wrote (makeRequestDiscoveryService (subs ! length rs) (getNode m)), ReadMsg x]))"
  using assms(2,3)
proof (induction subs arbitrary: s k a)
  case Nil
  then show ?case by (intro exI [of _ "[]"]) (simp add: filled_none hands_over_refl)
next
  case (Cons sub subs)
  show ?case
  proof (rule subscribeUrl_outcome [OF assms(1), of g sub s])
    fix r s1
    assume r: "known_answer r" and s1: "subscribeUrl g (sub_type_url sub) (m, s) =
        Inr (round_request (getNode m) sub r, answer_of r, m, s1)"
      "cq_log s1 = cq_log s @ dialogue (getNode m) sub r" "hands_over s s1 (dialogue (getNode m) sub r)"
    from Cons.prems have "k < 4" by simp
    note keep = keepMessages_at [OF Cons.prems(1) this, of "round_request (getNode m) sub r" "answer_of r"]
    obtain a1 where a1: "keepMessages (round_request (getNode m) sub r) (answer_of r) a = Some a1"
      "arrays_at (Suc k) a1" using keep by blast
    have fill: "filled (Suc k) qs rs a1 = filled k (round_request (getNode m) sub r # qs) (answer_of r # rs) a"
      if "length qs = length rs" for qs rs
      using keep a1(1) that by (metis option.inject)
    have run: "subscribeAll g (map sub_type_url (sub # subs)) a (m, s) =
        subscribeAll g (map sub_type_url subs) a1 (m, s1)"
      by (simp add: s1(1) a1(1))
    have "Suc k + length subs \<le> 4" using Cons.prems(2) by simp
    from Cons.IH [OF a1(2) this, of s1] r s1(2) show ?thesis
      unfolding run
      by (elim exE conjE, rule_tac x = "r # rs" in exI) (auto simp: fill intro: hands_over_trans [OF s1(3)])
  qed (intro exI [of _ "[]"], auto)
qed

lemma getLocalAddress_result: "fst (getLocalAddress k st) = ''0.0.0.0''"
  by (simp add: getLocalAddress_def Let_def split: prod.split)

lemma AdsManager_eq:
  "AdsManager k url nodeId s =
    (\<lparr>pilotUrl = url, localInfo = LocalInfo ''0.0.0.0'' ''????????????'' nodeId, subscribe_map = Map.empty\<rparr>,
     s\<lparr>cq := fst (snd (getLocalAddress k (cq s, sock_log s))),
       sock_log := snd (snd (getLocalAddress k (cq s, sock_log s))),
       ads_logger := (if ads_logger s = None then Some NoopLogger else ads_logger s)\<rparr>)"
  using getLocalAddress_result [of k "(cq s, sock_log s)"]
  by (auto simp: AdsManager_def Let_def split: prod.split)

text \<open>The manager with its four subscriptions, and what the steps of an initialisation leave.\<close>

definition with_subscriptions :: "ads_manager \<Rightarrow> ads_manager" where
  "with_subscriptions m = m\<lparr>subscribe_map :=
     fold (\<lambda>sub. map_insert (sub_type_url sub) (Some sub)) all_subscriptions (subscribe_map m)\<rparr>"

lemma addSubscriptions_eq:
  "addSubscriptions (lm, s) = s\<lparr>gw_lines := gw_lines s @
       map (\<lambda>sub. (ads_logger s, AddSubscriptionLine (sub_type_url sub))) all_subscriptions,
     link_instance := Some (lm\<lparr>adsManager := with_subscriptions (adsManager lm)\<rparr>)\<rparr>"
  by (simp add: addSubscriptions_def addSubscription_def with_subscriptions_def all_subscriptions_def
      gateway_log_def Let_def)

lemma type_urls_distinct:
  "cds_type_url \<noteq> listener_type_url" "cds_type_url \<noteq> endpoint_type_url" "cds_type_url \<noteq> route_type_url"
  "listener_type_url \<noteq> cds_type_url" "listener_type_url \<noteq> endpoint_type_url" "listener_type_url \<noteq> route_type_url"
  "endpoint_type_url \<noteq> cds_type_url" "endpoint_type_url \<noteq> listener_type_url" "endpoint_type_url \<noteq> route_type_url"
  "route_type_url \<noteq> cds_type_url" "route_type_url \<noteq> listener_type_url" "route_type_url \<noteq> endpoint_type_url"
  by (simp_all add: cds_type_url_def listener_type_url_def endpoint_type_url_def route_type_url_def)

lemma ready_fresh: "subscribe_map m = Map.empty \<Longrightarrow> ready (with_subscriptions m)"
proof -
  assume "subscribe_map m = Map.empty"
  then have map: "subscribe_map (with_subscriptions m) =
    [cds_type_url \<mapsto> Some ClusterSubscription, listener_type_url \<mapsto> Some ListenerSubscription,
     endpoint_type_url \<mapsto> Some EndpointSubscription, route_type_url \<mapsto> Some RouteSubscription]"
    by (simp add: with_subscriptions_def all_subscriptions_def map_insert_def type_urls_distinct)
  then have "subscribe_map (with_subscriptions m) (sub_type_url sub) = Some (Some sub)" for sub
    by (cases sub) (simp_all add: type_urls_distinct)
  then show ?thesis by (auto simp: ready_def map urlList_def)
qed

lemma with_subscriptions_ready: "ready m \<Longrightarrow> with_subscriptions m = m"
proof -
  assume "ready m"
  then have "subscribe_map m (sub_type_url sub) = Some (Some sub)" for sub by (simp add: ready_def)
  then have "map_insert (sub_type_url sub) (Some sub) (subscribe_map m) = subscribe_map m" for sub
    by (simp add: map_insert_def del: sub_type_url.simps)
  then show ?thesis by (simp add: with_subscriptions_def all_subscriptions_def del: sub_type_url.simps)
qed

lemma with_subscriptions_info [simp]: "localInfo (with_subscriptions m) = localInfo m"
  by (simp add: with_subscriptions_def)

lemma chooseLogger_frame [simp]:
  "cq_log (chooseLogger lg s) = cq_log s" "sub_lines (chooseLogger lg s) = sub_lines s"
  "gw_lines (chooseLogger lg s) = gw_lines s" "link_instance (chooseLogger lg s) = link_instance s"
  "link_logger (chooseLogger lg s) = Some (case lg of None \<Rightarrow> NoopLogger | Some l \<Rightarrow> l)"
  "ads_logger (chooseLogger lg s) = (if lg = None then ads_logger s else lg)"
  by (auto simp: chooseLogger_def AdsManager_setLogger_def)

lemma createInstance_known: "link_instance s = Some lm \<Longrightarrow> createInstance k addr nodeId s = (lm, s)"
  by (simp add: createInstance_def)

lemma createInstance_new:
  assumes "link_instance s = None" and "createInstance k addr nodeId s = (lm, s1)"
  shows "pilotAddr lm = addr" and "subscribe_map (adsManager lm) = Map.empty"
    and "localInfo (adsManager lm) = LocalInfo ''0.0.0.0'' ''????????????'' nodeId"
    and "cq_log s1 = cq_log s" and "sub_lines s1 = sub_lines s" and "gw_lines s1 = gw_lines s"
    and "ads_logger s1 = (if ads_logger s = None then Some NoopLogger else ads_logger s)"
  using assms by (auto simp: createInstance_def IstioLinkManager_def AdsManager_eq Let_def)

text \<open>The two initialisations differ in one line of the log.\<close>

lemma init_env_init:
  "(init_env k env nodeId lg s)\<lparr>gw_lines := ls\<rparr> =
   (init k (case env of None \<Rightarrow> ''istiod.istio-system.svc.cluster.local:15010'' | Some a \<Rightarrow> a) nodeId lg s)\<lparr>gw_lines := ls\<rparr>"
  by (simp add: init_env_def init_def Let_def addSubscriptions_eq gateway_log_def split: prod.split)

lemma init_instance:
  assumes "case link_instance s of None \<Rightarrow> True | Some lm \<Rightarrow> ready (adsManager lm)"
  shows "\<exists>lm. link_instance (init k addr nodeId lg s) = Some lm \<and> ready (adsManager lm) \<and>
    link_instance s \<in> {None, Some lm}"
proof (cases "link_instance s")
  case None
  obtain lm s1 where c: "createInstance k addr nodeId (gateway_log lg InitLine s) = (lm, s1)" by force
  with ready_fresh [OF createInstance_new(2) [OF _ c]] None show ?thesis
    by (simp add: init_def addSubscriptions_eq)
next
  case (Some lm)
  with assms with_subscriptions_ready [of "adsManager lm"] show ?thesis
    by (simp add: init_def createInstance_known [of _ lm] addSubscriptions_eq)
qed

lemma init_loggers:
  "link_logger (init k addr nodeId lg s) = Some (case lg of None \<Rightarrow> NoopLogger | Some l \<Rightarrow> l)"
  "ads_logger (init k' addr' nodeId' lg' (init k addr nodeId (Some l) s)) =
     Some (case lg' of None \<Rightarrow> l | Some l' \<Rightarrow> l')"
proof -
  obtain lm s1 where c: "createInstance k addr nodeId (gateway_log lg InitLine s) = (lm, s1)" by force
  show "link_logger (init k addr nodeId lg s) = Some (case lg of None \<Rightarrow> NoopLogger | Some l \<Rightarrow> l)"
    by (simp add: init_def c addSubscriptions_eq)
  obtain lm s1 where c: "createInstance k addr nodeId (gateway_log (Some l) InitLine s) = (lm, s1)" by force
  let ?s = "init k addr nodeId (Some l) s"
  obtain lm' where inst: "link_instance ?s = Some lm'" and lg: "ads_logger ?s = Some l"
    by (simp add: init_def c addSubscriptions_eq)
  show "ads_logger (init k' addr' nodeId' lg' ?s) = Some (case lg' of None \<Rightarrow> l | Some l' \<Rightarrow> l')"
    using inst lg
    by (cases lg') (simp_all add: init_def [of k' addr' nodeId' _ ?s] createInstance_known addSubscriptions_eq)
qed

lemma init_world:
  assumes "link_instance s = None"
  obtains lm where "link_instance (init k addr nodeId lg s) = Some lm" and "ready (adsManager lm)"
    and "localInfo (adsManager lm) = LocalInfo ''0.0.0.0'' ''????????????'' nodeId" and "pilotAddr lm = addr"
    and "cq_log (init k addr nodeId lg s) = cq_log s" and "sub_lines (init k addr nodeId lg s) = sub_lines s"
proof -
  obtain lm s1 where c: "createInstance k addr nodeId (gateway_log lg InitLine s) = (lm, s1)" by force
  from assms have "link_instance (gateway_log lg InitLine s) = None" by simp
  note new = createInstance_new [OF this c]
  show ?thesis
    by (rule that [of "lm\<lparr>adsManager := with_subscriptions (adsManager lm)\<rparr>"])
      (use new ready_fresh in \<open>simp_all add: init_def c addSubscriptions_eq\<close>)
qed

abbreviation link_node :: "string \<Rightarrow> node" where
  "link_node nodeId \<equiv> li_node (LocalInfo ''0.0.0.0'' ''????????????'' nodeId)"

lemma link_exchange:
  assumes "link_instance s = None"
  shows "\<exists>rs ok. (\<forall>r\<in>set rs. known_answer r) \<and>
    ((\<exists>s'. length rs = 4 \<and> startLink g (init k addr nodeId lg s) = Inr s' \<and>
        cq_log s' = cq_log s @ Opened ok # dialogues (link_node nodeId) all_subscriptions rs \<and>
        hands_over s s' (dialogues (link_node nodeId) all_subscriptions rs)) \<or>
     (\<exists>x s'. length rs < 4 \<and> sent_by g (Some x) \<and> resp_type_url x \<notin> set urlList \<and>
        startLink g (init k addr nodeId lg s) = Inl (NullSubscription, s') \<and>
        cq_log s' = cq_log s @ Opened ok # dialogues (link_node nodeId) all_subscriptions rs @
          [Wrote (makeRequestDiscoveryService (all_subscriptions ! length rs) (link_node nodeId)), ReadMsg x]))"
proof -
  let ?s1 = "init k addr nodeId lg s"
  obtain lm where lm: "link_instance ?s1 = Some lm" "ready (adsManager lm)"
    "localInfo (adsManager lm) = LocalInfo ''0.0.0.0'' ''????????????'' nodeId"
    and log: "cq_log ?s1 = cq_log s" "sub_lines ?s1 = sub_lines s"
    by (rule init_world [OF assms])
  let ?s2 = "startcall g (gateway_log (ads_logger ?s1) (StartClientLine (link_node nodeId))
    (gateway_log (link_logger ?s1) StartLinkLine ?s1))" and ?ok = "fst (start_call g (cq ?s1))"
  have node: "getNode (adsManager lm) = link_node nodeId" by (simp add: getNode_def lm(3))
  have start: "startClient g (adsManager lm, gateway_log (link_logger ?s1) StartLinkLine ?s1) =
      bind_res (subscribeAll g (map sub_type_url all_subscriptions) new_arrays (adsManager lm, ?s2)) (\<lambda>(a, ms1). Inr ms1)"
    by (simp add: startClient_def urlList_subscriptions node)
  have len: "length all_subscriptions = 4" by (simp add: all_subscriptions_def)
  have "0 + length all_subscriptions \<le> 4" by (simp add: len)
  from subscribeAll_outcome [OF lm(2) arrays_new this, of g ?s2] show ?thesis
    by (elim exE conjE, rule_tac x = rs in exI, rule_tac x = ?ok in exI)
      (auto simp: len node start startLink_def getIstioLinkManager_def lm(1) hands_over_def log)
qed

text \<open>A link whose server sends nothing starts.\<close>

lemma mute_link_starts:
  assumes "link_instance s = None" and "\<And>w. fst (read_next g w) = None"
  obtains s' where "startLink g (init k addr nodeId lg s) = Inr s'"
  using link_exchange [OF assms(1), of g k addr nodeId lg] assms(2) by (auto simp: sent_by_def)

text \<open>
  The requests of a full exchange: two for each type in the order of the subscriptions, the
  first of each pair fresh, all with the local node.
\<close>

lemma dialogues_requests:
  fixes n rs defines "qs \<equiv> writes_of (dialogues n all_subscriptions rs)"
  assumes "length rs = 4"
  shows "map req_type_url qs = concat (map (\<lambda>sub. [sub_type_url sub, sub_type_url sub]) all_subscriptions)"
    and "list_all (\<lambda>q. req_node q = Some n \<and> req_error_detail q = None) qs"
    and "list_all (\<lambda>i. req_version_info (qs ! i) = [] \<and> req_response_nonce (qs ! i) = []) [0, 2, 4, 6]"
proof -
  from assms(2) obtain a b c d where r: "rs = [a, b, c, d]"
    by (auto simp: length_Suc_conv eval_nat_numeral)
  have w: "(case (case x of None \<Rightarrow> ReadEnd | Some y \<Rightarrow> ReadMsg y) of Wrote r \<Rightarrow> [r] | _ \<Rightarrow> []) = []" for x
    by (cases x) simp_all
  note facts = qs_def r all_subscriptions_def dialogue_def Let_def w makeRequest_type makeRequest_node
    acked_makeRequest(1,2,4) makeRequest_fresh
  show "map req_type_url qs = concat (map (\<lambda>sub. [sub_type_url sub, sub_type_url sub]) all_subscriptions)"
    "list_all (\<lambda>q. req_node q = Some n \<and> req_error_detail q = None) qs"
    "list_all (\<lambda>i. req_version_info (qs ! i) = [] \<and> req_response_nonce (qs ! i) = []) [0, 2, 4, 6]"
    by (simp_all add: facts del: makeRequestDiscoveryService.simps)
qed

text \<open>The kernel and the call the instances run on: a server that accepts everything and sends nothing.\<close>

definition test_kernel :: "'w socket_api" where
  "test_kernel = \<lparr>little_endian = True, sys_socket = (\<lambda>w. (3, w)), sys_connect = (\<lambda>fd a w. (0, w)),
     sys_getsockname = (\<lambda>fd a w. (0, a, w)), sys_close = (\<lambda>fd w. (0, w))\<rparr>"

definition mute_async :: "unit async_rpc" where
  "mute_async = \<lparr>start_call = (\<lambda>w. (True, w)), write_next = (\<lambda>q w. (True, w)), read_next = (\<lambda>w. (None, w))\<rparr>"

lemma mute_async_reads: "fst (read_next mute_async w) = None" "\<not> sent_by mute_async (Some x)"
  by (simp_all add: mute_async_def sent_by_def)

section \<open>The worker\<close>

definition has_sub :: "(string \<rightharpoonup> subscription option) \<Rightarrow> string \<Rightarrow> bool" where
  "has_sub h url \<longleftrightarrow> (case h url of Some (Some sub) \<Rightarrow> True | _ \<Rightarrow> False)"

definition worker_ready :: "(string \<rightharpoonup> subscription option) \<Rightarrow> bool" where
  "worker_ready h \<longleftrightarrow> list_all (has_sub h) urlList"

definition worker_at :: "nat \<Rightarrow> callable \<Rightarrow> bool" where
  "worker_at k c \<longleftrightarrow> call_index c = int k \<and> length (call_requests c) = 4 \<and> length (call_responses c) = 4"

lemma worker_at_start: "worker_at 0 (callable_start h)"
  by (simp add: worker_at_def callable_start_def)

text \<open>One step of a round, whose empty handlers leave the messages as they are.\<close>

lemma callRound_step:
  assumes "worker_at k c" and "k < 4" and "has_sub (call_map c) url"
  shows "callRound (url # urls) c = callRound urls (c\<lparr>call_index := int (Suc k)\<rparr>)"
    and "worker_at (Suc k) (c\<lparr>call_index := int (Suc k)\<rparr>)"
  using assms
  by (auto simp: worker_at_def has_sub_def callable_receiveADS_def callable_sendACK_def Let_def add.commute
      split: option.splits)

lemma callRound_fault:
  assumes "\<not> has_sub (call_map c) url"
  shows "\<exists>h. callRound (url # urls) c = Inl (NullSubscription, c\<lparr>call_map := h\<rparr>)"
proof (cases "call_map c url")
  case None
  then show ?thesis by auto
next
  case (Some p)
  with assms have "callRound (url # urls) c = Inl (NullSubscription, c\<lparr>call_map := call_map c\<rparr>)"
    by (cases p) (simp_all add: has_sub_def)
  then show ?thesis by blast
qed

text \<open>A round goes up to the first type without a subscription.\<close>

lemma callRound_outcome:
  assumes "worker_at k c" and "k + length urls \<le> 4"
  shows "if list_all (has_sub (call_map c)) urls
    then callRound urls c = Inr (c\<lparr>call_index := int (k + length urls)\<rparr>)
    else \<exists>i h. i < length urls \<and> \<not> has_sub (call_map c) (urls ! i) \<and>
      callRound urls c = Inl (NullSubscription, c\<lparr>call_index := int (k + i), call_map := h\<rparr>)"
  using assms
proof (induction urls arbitrary: c k)
  case Nil
  then show ?case by (simp add: worker_at_def)
next
  case (Cons url urls)
  show ?case
  proof (cases "has_sub (call_map c) url")
    case True
    let ?c = "c\<lparr>call_index := int (Suc k)\<rparr>"
    have "k < 4" and le: "Suc k + length urls \<le> 4" using Cons.prems(2) by simp_all
    note run = callRound_step(1) [OF Cons.prems(1) \<open>k < 4\<close> True]
    note IH = Cons.IH [OF callRound_step(2) [OF Cons.prems(1) \<open>k < 4\<close> True] le]
    show ?thesis
    proof (cases "list_all (has_sub (call_map c)) urls")
      case all: True
      then show ?thesis unfolding run using IH True by simp
    next
      case some: False
      then obtain i h where "i < length urls" "\<not> has_sub (call_map c) (urls ! i)"
        "callRound urls ?c = Inl (NullSubscription, ?c\<lparr>call_index := int (Suc k + i), call_map := h\<rparr>)"
        using IH by auto
      with some True show ?thesis
        unfolding run by (auto intro!: exI [of _ "Suc i"] exI [of _ h])
    qed
  next
    case False
    from callRound_fault [OF this, of urls] obtain h where
      "callRound (url # urls) c = Inl (NullSubscription, c\<lparr>call_map := h\<rparr>)" by blast
    moreover have "c\<lparr>call_index := int (k + 0), call_map := h\<rparr> = c\<lparr>call_map := h\<rparr>"
      using Cons.prems(1) by (cases c) (simp add: worker_at_def)
    ultimately have "callRound (url # urls) c =
        Inl (NullSubscription, c\<lparr>call_index := int (k + 0), call_map := h\<rparr>)" by simp
    with False show ?thesis
      by (auto simp del: callRound.simps intro!: exI [of _ "0::nat"] exI [of _ h])
  qed
qed

lemma callable_start_index: "(callable_start h)\<lparr>call_index := 0\<rparr> = callable_start h"
  by (simp add: callable_start_def)

lemma worker_loops: "worker_ready h \<Longrightarrow> IstioCallable_call n h = Inl (OutOfFuel, callable_start h)"
  unfolding IstioCallable_call_def
proof (induction n)
  case (Suc n)
  have "length urlList = 4" by (simp add: urlList_def)
  with callRound_outcome [OF worker_at_start, of urlList h] Suc show ?case
    by (simp add: worker_ready_def callable_start_def)
qed (simp add: halt_def)

lemma worker_faults:
  assumes "\<not> worker_ready h"
  shows "\<exists>i c. i < 4 \<and> \<not> has_sub h (urlList ! i) \<and> call_index c = int i \<and>
    IstioCallable_call (Suc n) h = Inl (NullSubscription, c)"
proof -
  have "length urlList = 4" by (simp add: urlList_def)
  with callRound_outcome [OF worker_at_start, of urlList h] assms obtain i h' where
    "i < 4" "\<not> has_sub h (urlList ! i)"
    "callRound urlList (callable_start h) =
       Inl (NullSubscription, (callable_start h)\<lparr>call_index := int i, call_map := h'\<rparr>)"
    by (auto simp: worker_ready_def callable_start_def)
  then show ?thesis
    by (intro exI [of _ i] exI [of _ "(callable_start h)\<lparr>call_index := int i, call_map := h'\<rparr>"])
      (simp add: IstioCallable_call_def)
qed

section \<open>Faults of the manager\<close>

lemma subscribeUrl_fault: "subscribeUrl g url ms = Inl (e, ms') \<Longrightarrow> e = NullSubscription"
  by (auto simp: subscribeUrl_def receiveADS_def Let_def bind_res_Inl_iff split: prod.splits option.splits)

lemma subscribeAll_fault:
  assumes "arrays_at k a" and "k + length urls \<le> 4" and "subscribeAll g urls a ms = Inl (e, ms')"
  shows "e = NullSubscription"
  using assms
proof (induction urls arbitrary: k a ms)
  case (Cons url urls)
  show ?case
  proof (cases "subscribeUrl g url ms")
    case (Inl p)
    with Cons.prems(3) show ?thesis using subscribeUrl_fault [of g url ms e ms'] by simp
  next
    case (Inr p)
    then obtain q r ms1 where p: "subscribeUrl g url ms = Inr (q, r, ms1)" by (cases p) auto
    from Cons.prems have "k < 4" by simp
    from keepMessages_at [OF Cons.prems(1) this] obtain a1
      where "keepMessages q r a = Some a1" "arrays_at (Suc k) a1" by blast
    with Cons.IH [of "Suc k" a1 ms1] Cons.prems p show ?thesis by simp
  qed
qed simp

end
