(* ===== verification/Anylink_Properties.thy ===== *)
theory Anylink_Properties
  imports Anylink_Exchange
begin

text \<open>
  The properties of the anylink client: its exchange with the server, the singleton, the
  identity of its node, the worker, and the bounds of the message arrays.
\<close>

section \<open>Properties\<close>

text \<open>
  C19. The whole exchange of a freshly initialised link with the server: whether or not the
  call could be started, for cluster, listener, endpoint and route in turn the subscription
  with the local node, one read, and the same request again with the version and nonce of
  whatever was read (empty ones when the read failed). Every message read is handed once, in
  order, to the handler of its own type, which has a logger. So a link that starts has sent
  two requests for each type in that order, the first of each pair fresh, all with the local
  node. The link starts exactly when every message read in its turn is of one of the four
  types; the first message of another type ends it in a call through a null subscription.
\<close>

theorem istio_link_exchange:
  assumes "link_instance s = None"
  shows "\<exists>rs ok qs. (\<forall>r\<in>set rs. known_answer r) \<and>
    ((\<exists>s'. length rs = 4 \<and> startLink g (init k addr nodeId lg s) = Inr s' \<and>
        cq_log s' = cq_log s @ Opened ok # dialogues (link_node nodeId) all_subscriptions rs \<and>
        hands_over s s' (dialogues (link_node nodeId) all_subscriptions rs) \<and>
        qs = writes_of (dialogues (link_node nodeId) all_subscriptions rs) \<and>
        map req_type_url qs = concat (map (\<lambda>sub. [sub_type_url sub, sub_type_url sub]) (sorted_list_of_set UNIV)) \<and>
        list_all (\<lambda>q. req_node q = Some (link_node nodeId) \<and> req_error_detail q = None) qs \<and>
        list_all (\<lambda>i. req_version_info (qs ! i) = [] \<and> req_response_nonce (qs ! i) = []) [0, 2, 4, 6]) \<or>
     (\<exists>x s'. length rs < 4 \<and> sent_by g (Some x) \<and> resp_type_url x \<notin> set urlList \<and>
        startLink g (init k addr nodeId lg s) = Inl (NullSubscription, s') \<and>
        cq_log s' = cq_log s @ Opened ok # dialogues (link_node nodeId) all_subscriptions rs @
          [Wrote (makeRequestDiscoveryService (all_subscriptions ! length rs) (link_node nodeId)), ReadMsg x]))"
proof -
  obtain rs ok where *: "\<forall>r\<in>set rs. known_answer r"
    "(\<exists>s'. length rs = 4 \<and> startLink g (init k addr nodeId lg s) = Inr s' \<and>
        cq_log s' = cq_log s @ Opened ok # dialogues (link_node nodeId) all_subscriptions rs \<and>
        hands_over s s' (dialogues (link_node nodeId) all_subscriptions rs)) \<or>
     (\<exists>x s'. length rs < 4 \<and> sent_by g (Some x) \<and> resp_type_url x \<notin> set urlList \<and>
        startLink g (init k addr nodeId lg s) = Inl (NullSubscription, s') \<and>
        cq_log s' = cq_log s @ Opened ok # dialogues (link_node nodeId) all_subscriptions rs @
          [Wrote (makeRequestDiscoveryService (all_subscriptions ! length rs) (link_node nodeId)), ReadMsg x])"
    using link_exchange [OF assms] by blast
  show ?thesis
    unfolding all_subscriptions_sorted
    by (intro exI [of _ rs] exI [of _ ok] exI [of _ "writes_of (dialogues (link_node nodeId) all_subscriptions rs)"])
      (use * dialogues_requests [of rs "link_node nodeId"] in blast)
qed

theorem istio_link_exchange_witness:
  "\<exists>rs s' ok. length rs = 4 \<and>
    startLink mute_async (init test_kernel ''pilot'' ''n'' None (new_world ())) = Inr s' \<and>
    cq_log s' = Opened ok # dialogues (link_node ''n'') all_subscriptions rs \<and>
    hands_over (new_world ()) s' (dialogues (link_node ''n'') all_subscriptions rs)"
proof -
  have "link_instance (new_world ()) = None" "cq_log (new_world ()) = []" by (simp_all add: new_world_def)
  with istio_link_exchange [of "new_world ()" mute_async test_kernel "''pilot''" "''n''" None]
  show ?thesis by (auto simp: mute_async_reads)
qed

text \<open>
  C21. The singleton: the first initialisation creates the instance and its four
  subscriptions; initialising again, with whatever address, node and logger, keeps the
  instance. The logger of the link follows the last call; that of its manager follows the last
  call with a logger, so that the two part when a null logger is given later. The form that
  takes the address from the environment differs from the other in one line of the log.
  Starting a link that was never initialised goes through the null instance.
\<close>

theorem init_is_idempotent:
  "(link_instance s = None \<longrightarrow>
     link_instance (init k' addr' nodeId' lg' (init k addr nodeId lg s)) = link_instance (init k addr nodeId lg s) \<and>
     (\<exists>lm. link_instance (init k addr nodeId lg s) = Some lm \<and> pilotAddr lm = addr \<and>
        (\<forall>sub. subscribe_map (adsManager lm) (sub_type_url sub) = Some (Some sub))) \<and>
     startLink g s = Inl (NullInstance, s)) \<and>
   link_logger (init k' addr' nodeId' lg' s) = Some (case lg' of None \<Rightarrow> NoopLogger | Some l \<Rightarrow> l) \<and>
   ads_logger (init k' addr' nodeId' lg' (init k addr nodeId (Some l) s)) = Some (case lg' of None \<Rightarrow> l | Some l' \<Rightarrow> l') \<and>
   (init_env k (Some addr) nodeId lg s)\<lparr>gw_lines := ls\<rparr> = (init k addr nodeId lg s)\<lparr>gw_lines := ls\<rparr>"
proof (intro conjI impI)
  assume none: "link_instance s = None"
  obtain lm where lm: "link_instance (init k addr nodeId lg s) = Some lm" "ready (adsManager lm)"
    and "pilotAddr lm = addr"
    by (rule init_world [OF none])
  then have "case link_instance (init k addr nodeId lg s) of None \<Rightarrow> True | Some lm \<Rightarrow> ready (adsManager lm)" by simp
  from init_instance [OF this, of k' addr' nodeId' lg'] lm(1)
  show "link_instance (init k' addr' nodeId' lg' (init k addr nodeId lg s)) = link_instance (init k addr nodeId lg s)" by auto
  from \<open>pilotAddr lm = addr\<close> lm show "\<exists>lm. link_instance (init k addr nodeId lg s) = Some lm \<and> pilotAddr lm = addr \<and>
      (\<forall>sub. subscribe_map (adsManager lm) (sub_type_url sub) = Some (Some sub))"
    by (auto simp: ready_def)
  show "startLink g s = Inl (NullInstance, s)"
    by (simp add: startLink_def getIstioLinkManager_def none)
qed (simp_all add: init_loggers init_env_init)

theorem init_is_idempotent_witness:
  "link_instance (init test_kernel ''b'' ''m'' None (init test_kernel ''a'' ''n'' None (new_world ()))) =
     link_instance (init test_kernel ''a'' ''n'' None (new_world ())) \<and>
   startLink \<lparr>start_call = (\<lambda>w. (True, w)), write_next = (\<lambda>q w. (True, w)), read_next = (\<lambda>w. (None, w))\<rparr> (new_world ()) =
     Inl (NullInstance, new_world ())"
  using init_is_idempotent [of "new_world ()" test_kernel "''b''" "''m''" None test_kernel "''a''" "''n''" None
      "\<lparr>start_call = (\<lambda>w. (True, w)), write_next = (\<lambda>q w. (True, w)), read_next = (\<lambda>w. (None, w))\<rparr>"]
  by (simp add: new_world_def)

text \<open>
  C22. The identity of the link's node: split at the tildes as the control plane does, it
  gives back the proxy kind, the local address, the node name the link was created with, and
  the domain, for a non-empty name without tildes. The address is always the unspecified one.
\<close>

theorem link_node_identity:
  assumes "nodeId \<noteq> []" and "CHR ''~'' \<notin> set nodeId" and "link_instance s = None"
  shows "\<exists>lm. link_instance (init k addr nodeId lg s) = Some lm \<and>
    split_at (CHR ''~'') (node_id (getNode (adsManager lm))) = [''sidecar'', ''0.0.0.0'', nodeId, ''testDNS'']"
proof -
  obtain lm where lm: "link_instance (init k addr nodeId lg s) = Some lm"
    "localInfo (adsManager lm) = LocalInfo ''0.0.0.0'' ''????????????'' nodeId"
    by (rule init_world [OF assms(3)])
  have id: "node_id (getNode (adsManager lm)) = sidecar_id ''0.0.0.0'' nodeId"
    using assms(1) by (simp add: getNode_def lm(2) LocalInfo_def Let_def)
  have "host_part ''0.0.0.0'' = ''0.0.0.0''" by (simp add: host_part_def)
  with sidecar_id_fields [of "''0.0.0.0''" nodeId] assms(2) lm(1) show ?thesis by (simp add: id)
qed

theorem link_node_identity_witness:
  "\<exists>lm. link_instance (init test_kernel ''pilot'' ''pod-1'' None (new_world ())) = Some lm \<and>
    split_at (CHR ''~'') (node_id (getNode (adsManager lm))) = [''sidecar'', ''0.0.0.0'', ''pod-1'', ''testDNS'']"
  by (rule link_node_identity) (simp_all add: new_world_def)

text \<open>
  C23. The worker thread never returns. With a subscription for each of the four types it goes
  round for ever, whatever fuel it is given, and changes nothing; otherwise it goes through the
  null pointer of a type that has none, in its first round. The source fills its map nowhere,
  so it faults on the cluster type.
\<close>

theorem worker_never_returns:
  "IstioCallable_call n h \<noteq> Inr c \<and>
   (if worker_ready h then IstioCallable_call n h = Inl (OutOfFuel, callable_start h)
    else \<exists>i c. i < 4 \<and> \<not> has_sub h (urlList ! i) \<and> call_index c = int i \<and>
      IstioCallable_call (Suc n) h = Inl (NullSubscription, c)) \<and>
   IstioCallable_call (Suc n) Map.empty = Inl (NullSubscription, callable_start [cds_type_url \<mapsto> None])"
proof (intro conjI)
  show "IstioCallable_call n h \<noteq> Inr c"
  proof (cases "worker_ready h")
    case False
    then show ?thesis
      using worker_faults [of h "n - 1"] by (cases n) (auto simp: IstioCallable_call_def)
  qed (simp add: worker_loops)
  show "if worker_ready h then IstioCallable_call n h = Inl (OutOfFuel, callable_start h)
    else \<exists>i c. i < 4 \<and> \<not> has_sub h (urlList ! i) \<and> call_index c = int i \<and>
      IstioCallable_call (Suc n) h = Inl (NullSubscription, c)"
    using worker_loops [of h n] worker_faults [of h n] by simp
  show "IstioCallable_call (Suc n) Map.empty = Inl (NullSubscription, callable_start [cds_type_url \<mapsto> None])"
    by (simp add: IstioCallable_call_def callable_start_def urlList_def)
qed

text \<open>
  C38. The message arrays are never overrun: neither starting the client, in whatever state
  the manager and the call are, nor the worker, however long it runs, indexes outside its four
  elements. When a manager with its subscriptions starts, the arrays end up full, with the
  acknowledged request and the response of each type in the order of the types.
\<close>

theorem messages_stay_in_arrays:
  assumes "ready m" and "subscribeAll g urlList new_arrays (m, s) = Inr (a, ms1)"
  shows "startClient g' ms \<noteq> Inl (ArrayOverrun, ms') \<and>
    IstioCallable_call n h \<noteq> Inl (ArrayOverrun, c) \<and>
    arr_index a = 4 \<and> (\<exists>rs. length rs = 4 \<and> responseArray a = map answer_of rs \<and>
      requestArray a = map2 (round_request (getNode m)) all_subscriptions rs)"
proof (intro conjI)
  have len: "length urlList = 4" "length all_subscriptions = 4"
    by (simp_all add: urlList_def all_subscriptions_def)
  show "startClient g' ms \<noteq> Inl (ArrayOverrun, ms')"
    using subscribeAll_fault [OF arrays_new, of urlList g' _ ArrayOverrun ms'] len
    by (auto simp: startClient_def Let_def bind_res_Inl_iff split: prod.splits)
  show "IstioCallable_call n h \<noteq> Inl (ArrayOverrun, c)"
    using worker_loops [of h n] worker_faults [of h "n - 1"]
    by (cases "worker_ready h"; cases n) (auto simp: IstioCallable_call_def halt_def)
  have "0 + length all_subscriptions \<le> 4" by (simp add: len)
  from subscribeAll_outcome [OF assms(1) arrays_new this, of g s] assms(2) obtain rs where
    rs: "length rs = 4" "a = filled 0 (map2 (round_request (getNode m)) all_subscriptions rs) (map answer_of rs) new_arrays"
    by (auto simp: len urlList_subscriptions)
  then show "arr_index a = 4" "\<exists>rs. length rs = 4 \<and> responseArray a = map answer_of rs \<and>
      requestArray a = map2 (round_request (getNode m)) all_subscriptions rs"
    by (auto simp: filled_def len new_arrays_def)
qed

definition test_manager :: ads_manager where
  "test_manager = with_subscriptions (fst (AdsManager test_kernel ''pilot'' ''n'' (new_world ())))"

lemma ready_test_manager: "ready test_manager"
  unfolding test_manager_def by (rule ready_fresh) (simp add: AdsManager_eq)

theorem messages_stay_in_arrays_witness:
  "\<exists>a ms1 rs. subscribeAll mute_async urlList new_arrays (test_manager, new_world ()) = Inr (a, ms1) \<and>
    arr_index a = 4 \<and> length rs = 4 \<and>
    requestArray a = map2 (round_request (getNode test_manager)) all_subscriptions rs \<and>
    startClient mute_async (test_manager, new_world ()) \<noteq> Inl (ArrayOverrun, ms1) \<and>
    IstioCallable_call 3 Map.empty \<noteq> Inl (ArrayOverrun, callable_start Map.empty)"
proof -
  have "0 + length all_subscriptions \<le> 4" by (simp add: all_subscriptions_def)
  from subscribeAll_outcome [OF ready_test_manager arrays_new this, of mute_async "new_world ()"] obtain a ms1
    where run: "subscribeAll mute_async urlList new_arrays (test_manager, new_world ()) = Inr (a, ms1)"
    unfolding urlList_subscriptions by (auto simp: mute_async_reads)
  from messages_stay_in_arrays [OF ready_test_manager run, of mute_async "(test_manager, new_world ())" ms1 3
      Map.empty "callable_start Map.empty"] run
  show ?thesis by blast
qed

end
