(* ===== verification/Gateway_Log.thy ===== *)
theory Gateway_Log
  imports Anylink_Exchange
begin

text \<open>
  The logger pointers of the anylink client. The loggers are static members that start null;
  constructors and setters put a logger that does nothing in the place of a null one. What
  \<^verbatim>\<open>GATEWAY_LOG\<close> does with a null pointer is outside the sources, so the question is which of its uses
  are handed one, over any sequence of calls of the link's interface.
\<close>

section \<open>Sequences of calls\<close>

datatype link_call =
    Init string string "logger option"
  | InitEnv "string option" string "logger option"
  | StartLink

fun link_call_step :: "'w socket_api \<Rightarrow> 'w async_rpc \<Rightarrow> link_call \<Rightarrow> 'w link_world \<Rightarrow> 'w link_world call" where
  "link_call_step k g (Init addr nodeId lg) s = Inr (init k addr nodeId lg s)"
| "link_call_step k g (InitEnv env nodeId lg) s = Inr (init_env k env nodeId lg s)"
| "link_call_step k g StartLink s = startLink g s"

fun run_calls :: "'w socket_api \<Rightarrow> 'w async_rpc \<Rightarrow> link_call list \<Rightarrow> 'w link_world \<Rightarrow> 'w link_world call" where
  "run_calls k g [] s = Inr s"
| "run_calls k g (c # cs) s = bind_res (link_call_step k g c s) (run_calls k g cs)"

fun null_init :: "link_call \<Rightarrow> bool" where
  "null_init (Init addr nodeId lg) \<longleftrightarrow> lg = None"
| "null_init (InitEnv env nodeId lg) \<longleftrightarrow> lg = None"
| "null_init StartLink \<longleftrightarrow> False"

definition null_lines :: "'w link_world \<Rightarrow> (logger option \<times> gateway_line) list" where
  "null_lines s = filter (\<lambda>(l, x). l = None) (gw_lines s)"

definition handlers_logged :: "'w link_world \<Rightarrow> bool" where
  "handlers_logged s \<longleftrightarrow> list_all (\<lambda>(tag, lg, x). lg \<noteq> None) (sub_lines s)"

section \<open>The exchange logs to its logger\<close>

text \<open>Nothing is handed a null logger from \<open>s\<close> to \<open>s'\<close>, and the loggers of manager and link stay.\<close>

definition logs_safely :: "'w link_world \<Rightarrow> 'w link_world \<Rightarrow> bool" where
  "logs_safely s s' \<longleftrightarrow> null_lines s' = null_lines s \<and> (handlers_logged s \<longrightarrow> handlers_logged s') \<and>
     ads_logger s' = ads_logger s \<and> link_logger s' = link_logger s"

lemma logs_refl [simp]: "logs_safely s s"
  by (simp add: logs_safely_def)

lemma logs_trans: "logs_safely s s1 \<Longrightarrow> logs_safely s1 s2 \<Longrightarrow> logs_safely s s2"
  by (simp add: logs_safely_def)

lemma logs_line:
  "gw_lines s' = gw_lines s @ [(l, x)] \<Longrightarrow> l \<noteq> None \<Longrightarrow> sub_lines s' = sub_lines s \<Longrightarrow>
   ads_logger s' = ads_logger s \<Longrightarrow> link_logger s' = link_logger s \<Longrightarrow> logs_safely s s'"
  by (simp add: logs_safely_def null_lines_def handlers_logged_def)

lemma logs_gateway: "l \<noteq> None \<Longrightarrow> logs_safely s (gateway_log l x s)"
  by (rule logs_line) simp_all

lemma logs_startcall: "ads_logger s \<noteq> None \<Longrightarrow> logs_safely s (startcall g s)"
  by (rule logs_line) simp_all

lemma logs_write: "ads_logger s \<noteq> None \<Longrightarrow> logs_safely s (write_request g line q s)"
  by (rule logs_line) simp_all

lemma logs_setLogger: "logs_safely s (Subscription_setLogger l s)"
  by (simp add: logs_safely_def null_lines_def handlers_logged_def)

lemma logs_handler: "sub_logger s \<noteq> None \<Longrightarrow> logs_safely s (onResponseDiscoveryService sub x s)"
  by (simp add: onResponse_eq log_response_def logs_safely_def null_lines_def handlers_logged_def)

text \<open>The world an operation ends in, however it ends.\<close>

fun world_after :: "(fault \<times> 'w mgr_state) + 'a \<times> 'w mgr_state \<Rightarrow> 'w link_world" where
  "world_after (Inl (e, ms)) = snd ms"
| "world_after (Inr (x, ms)) = snd ms"

lemma logs_receive:
  assumes "ads_logger s \<noteq> None" and "sub_logger s \<noteq> None"
  shows "logs_safely s (world_after (receiveADS g r (m, s)))"
proof -
  obtain a w where rd: "read_next g (cq s) = (a, w)" by force
  let ?s1 = "\<lambda>b e. gateway_log (ads_logger s) (ReadLine b) (s\<lparr>cq := w, cq_log := cq_log s @ [e]\<rparr>)"
  have l: "logs_safely s (?s1 b e)" for b e by (rule logs_line) (use assms in simp_all)
  show ?thesis
  proof (cases a)
    case None
    with rd l show ?thesis by (simp add: receiveADS_def)
  next
    case (Some x)
    obtain p m1 where "subscribe_at (resp_type_url x) m = (p, m1)" by force
    with rd Some l logs_trans [OF l logs_handler, of True "ReadMsg x"] assms(2) show ?thesis
      by (cases p) (simp_all add: receiveADS_def Let_def)
  qed
qed

lemma logs_subscribeUrl:
  assumes "ads_logger s \<noteq> None"
  shows "(\<exists>q x ms. subscribeUrl g url (m, s) = Inr (q, x, ms) \<and> logs_safely s (snd ms)) \<or>
    (\<exists>e ms. subscribeUrl g url (m, s) = Inl (e, ms) \<and> logs_safely s (snd ms))"
proof -
  obtain p m1 where p: "subscribe_at url m = (p, m1)" by force
  show ?thesis
  proof (cases p)
    case None
    with p show ?thesis by (simp add: subscribeUrl_def)
  next
    case (Some sub)
    let ?q = "makeRequestDiscoveryService sub (getNode m1)"
    let ?s1 = "gateway_log (ads_logger s) (SubscribeLine (sub_type_url sub)) s"
    let ?s2 = "write_request g WriteLine ?q (Subscription_setLogger (ads_logger s) ?s1)"
    have run: "subscribeUrl g url (m, s) = bind_res (receiveADS g empty_response (m1, ?s2))
        (\<lambda>(x, m3, s3). let (q, s4) = sendACK g ?q x s3 in Inr (q, x, m3, s4))"
      using p Some by (simp add: subscribeUrl_def initSubscribe_def Let_def)
    have "logs_safely s ?s2"
      by (rule logs_trans [OF logs_gateway logs_trans [OF logs_setLogger logs_write]]) (simp_all add: assms)
    moreover have "logs_safely ?s2 (world_after (receiveADS g empty_response (m1, ?s2)))"
      by (rule logs_receive) (simp_all add: assms setLogger_frame(7))
    ultimately have l: "logs_safely s (world_after (receiveADS g empty_response (m1, ?s2)))" by (rule logs_trans)
    show ?thesis
    proof (cases "receiveADS g empty_response (m1, ?s2)")
      case (Inl e)
      with l run show ?thesis by (cases e) simp
    next
      case (Inr y)
      obtain x m3 s3 where y: "y = (x, m3, s3)" by (cases y) auto
      with l Inr have "logs_safely s s3" by simp
      moreover from this have "ads_logger s3 \<noteq> None" using assms by (simp add: logs_safely_def)
      ultimately show ?thesis
        unfolding run Inr y by (simp add: sendACK_def Let_def logs_trans [OF _ logs_write])
    qed
  qed
qed

lemma logs_subscribeAll:
  "ads_logger s \<noteq> None \<Longrightarrow> logs_safely s (world_after (subscribeAll g urls a (m, s)))"
proof (induction urls arbitrary: a m s)
  case (Cons url urls)
  from logs_subscribeUrl [OF Cons.prems, of g url m] show ?case
  proof (elim disjE exE conjE)
    fix q x ms
    assume u: "subscribeUrl g url (m, s) = Inr (q, x, ms)" and l: "logs_safely s (snd ms)"
    obtain m1 s1 where ms: "ms = (m1, s1)" by (cases ms)
    with l Cons.prems have "ads_logger s1 \<noteq> None" by (simp add: logs_safely_def)
    from logs_trans [OF _ Cons.IH [OF this]] l u ms show ?thesis
      by (cases "keepMessages q x a") simp_all
  qed simp
qed simp

lemma logs_startClient:
  assumes "ads_logger s \<noteq> None"
  shows "logs_safely s (snd (final (startClient g (m, s))))"
proof -
  let ?s1 = "startcall g (gateway_log (ads_logger s) (StartClientLine (getNode m)) s)"
  have "logs_safely s ?s1"
    by (rule logs_trans [OF logs_gateway logs_startcall]) (simp_all add: assms)
  moreover have "logs_safely ?s1 (world_after (subscribeAll g urlList new_arrays (m, ?s1)))"
    by (rule logs_subscribeAll) (simp add: assms)
  ultimately have "logs_safely s (world_after (subscribeAll g urlList new_arrays (m, ?s1)))" by (rule logs_trans)
  then show ?thesis
    by (cases "subscribeAll g urlList new_arrays (m, ?s1)") (auto simp: startClient_def Let_def)
qed

section \<open>Calls of the interface\<close>

definition guarded :: "'w link_world \<Rightarrow> bool" where
  "guarded s \<longleftrightarrow> handlers_logged s \<and> (link_instance s \<noteq> None \<longrightarrow> ads_logger s \<noteq> None \<and> link_logger s \<noteq> None)"

lemma guarded_new: "guarded (new_world w)"
  by (simp add: guarded_def new_world_def handlers_logged_def)

lemma startLink_logs:
  assumes "guarded s"
  shows "guarded (final (startLink g s))" and "null_lines (final (startLink g s)) = null_lines s"
proof -
  have "guarded (final (startLink g s)) \<and> null_lines (final (startLink g s)) = null_lines s"
  proof (cases "link_instance s")
    case None
    with assms show ?thesis by (simp add: startLink_def getIstioLinkManager_def)
  next
    case (Some lm)
    let ?s1 = "gateway_log (link_logger s) StartLinkLine s"
    have lg: "ads_logger s \<noteq> None" "link_logger s \<noteq> None" using assms Some by (auto simp: guarded_def)
    have l: "logs_safely s (snd (final (startClient g (adsManager lm, ?s1))))"
      by (rule logs_trans [OF logs_gateway [OF lg(2)] logs_startClient]) (simp add: lg(1))
    have eq: "final (startLink g s) = (snd (final (startClient g (adsManager lm, ?s1))))
        \<lparr>link_instance := Some (lm\<lparr>adsManager := fst (final (startClient g (adsManager lm, ?s1)))\<rparr>)\<rparr>"
      using Some by (cases "startClient g (adsManager lm, ?s1)")
        (auto simp: startLink_def getIstioLinkManager_def Let_def)
    show ?thesis
      unfolding eq using l lg assms
      by (simp add: guarded_def logs_safely_def null_lines_def handlers_logged_def)
  qed
  then show "guarded (final (startLink g s))" and "null_lines (final (startLink g s)) = null_lines s" by auto
qed

lemma createInstance_loggers:
  assumes "createInstance k addr nodeId s = (lm, s1)" and "guarded s"
  shows "ads_logger s1 \<noteq> None" and "gw_lines s1 = gw_lines s" and "sub_lines s1 = sub_lines s"
proof -
  have "ads_logger s1 \<noteq> None \<and> gw_lines s1 = gw_lines s \<and> sub_lines s1 = sub_lines s"
  proof (cases "link_instance s")
    case None
    from createInstance_new [OF this assms(1)] show ?thesis by simp
  next
    case (Some lm)
    with assms show ?thesis by (auto simp: createInstance_def guarded_def)
  qed
  then show "ads_logger s1 \<noteq> None" "gw_lines s1 = gw_lines s" "sub_lines s1 = sub_lines s" by auto
qed

lemma guarded_gateway [simp]: "guarded (gateway_log l x s) = guarded s"
  by (simp add: guarded_def handlers_logged_def)

text \<open>The common end of the two initialisations, from the state in which the instance is there.\<close>

lemma addSubscriptions_logs:
  assumes "handlers_logged s" and "ads_logger s \<noteq> None" and "link_logger s \<noteq> None"
  shows "guarded (addSubscriptions (lm, s))" and "null_lines (addSubscriptions (lm, s)) = null_lines s"
  using assms by (simp_all add: guarded_def handlers_logged_def null_lines_def addSubscriptions_eq
      all_subscriptions_def)

lemma instance_logs:
  assumes "guarded s" and "createInstance k addr nodeId (gateway_log lg InitLine s) = (lm, s1)"
  shows "handlers_logged (chooseLogger lg s1)" and "ads_logger (chooseLogger lg s1) \<noteq> None"
    and "null_lines (chooseLogger lg s1) = null_lines s @ (if lg = None then [(None, InitLine)] else [])"
proof -
  have "guarded (gateway_log lg InitLine s)" by (simp add: assms(1))
  note new = createInstance_loggers [OF assms(2) this]
  show "handlers_logged (chooseLogger lg s1)" using new assms(1) by (simp add: guarded_def handlers_logged_def)
  show "ads_logger (chooseLogger lg s1) \<noteq> None" using new by simp
  show "null_lines (chooseLogger lg s1) = null_lines s @ (if lg = None then [(None, InitLine)] else [])"
    using new by (simp add: null_lines_def)
qed

lemma init_logs:
  assumes "guarded s"
  shows "guarded (init k addr nodeId lg s)"
    and "null_lines (init k addr nodeId lg s) = null_lines s @ (if lg = None then [(None, InitLine)] else [])"
proof -
  obtain lm s1 where c: "createInstance k addr nodeId (gateway_log lg InitLine s) = (lm, s1)" by force
  note l = instance_logs [OF assms c]
  from addSubscriptions_logs [OF l(1,2), of lm] l(3)
  show "guarded (init k addr nodeId lg s)"
    "null_lines (init k addr nodeId lg s) = null_lines s @ (if lg = None then [(None, InitLine)] else [])"
    by (simp_all add: init_def c)
qed

lemma init_env_logs:
  assumes "guarded s"
  shows "guarded (init_env k env nodeId lg s)"
    and "null_lines (init_env k env nodeId lg s) = null_lines s @ (if lg = None then [(None, InitLine)] else [])"
proof -
  let ?path = "case env of None \<Rightarrow> ''istiod.istio-system.svc.cluster.local:15010'' | Some a \<Rightarrow> a"
  obtain lm s1 where c: "createInstance k ?path nodeId (gateway_log lg InitLine s) = (lm, s1)" by force
  let ?s2 = "gateway_log (link_logger (chooseLogger lg s1)) InitLine (chooseLogger lg s1)"
  note l = instance_logs [OF assms c]
  have "logs_safely (chooseLogger lg s1) ?s2" by (rule logs_gateway) simp
  with l have "handlers_logged ?s2" "ads_logger ?s2 \<noteq> None"
    "null_lines ?s2 = null_lines s @ (if lg = None then [(None, InitLine)] else [])"
    unfolding logs_safely_def by metis+
  with addSubscriptions_logs [of ?s2 lm]
  show "guarded (init_env k env nodeId lg s)"
    "null_lines (init_env k env nodeId lg s) = null_lines s @ (if lg = None then [(None, InitLine)] else [])"
    by (simp_all add: init_env_def Let_def c)
qed

lemma call_logs:
  assumes "guarded s"
  shows "guarded (final (link_call_step k g c s)) \<and> null_lines (final (link_call_step k g c s)) =
    null_lines s @ (if null_init c then [(None, InitLine)] else [])"
  using init_logs [OF assms] init_env_logs [OF assms] startLink_logs [OF assms] by (cases c) simp_all

lemma calls_log:
  "guarded s \<Longrightarrow> \<exists>done todo. cs = done @ todo \<and> (\<forall>s'. run_calls k g cs s = Inr s' \<longrightarrow> todo = []) \<and>
     guarded (final (run_calls k g cs s)) \<and> null_lines (final (run_calls k g cs s)) =
       null_lines s @ replicate (length (filter null_init done)) (None, InitLine)"
proof (induction cs arbitrary: s)
  case (Cons c cs)
  note step = call_logs [OF Cons.prems, of k g c]
  show ?case
  proof (cases "link_call_step k g c s")
    case (Inl p)
    with step show ?thesis by (intro exI [of _ "[c]"] exI [of _ cs]) (cases p, simp)
  next
    case (Inr s1)
    with step Cons.IH [of s1] obtain ds todo where "cs = ds @ todo"
      "\<forall>s'. run_calls k g cs s1 = Inr s' \<longrightarrow> todo = []" "guarded (final (run_calls k g cs s1))"
      "null_lines (final (run_calls k g cs s1)) = null_lines s1 @ replicate (length (filter null_init ds)) (None, InitLine)"
      by auto
    with Inr step show ?thesis by (intro exI [of _ "c # ds"] exI [of _ todo]) simp
  qed
qed simp

section \<open>The property\<close>

text \<open>
  C20. Which uses of \<^verbatim>\<open>GATEWAY_LOG\<close> are handed a null logger. Take any sequence of initialisations and
  starts of the link from the start of the program, up to its end or to the call that faults:
  the response handlers always have a logger, and so has every other line but one, the first of
  an initialisation that is given a null logger, which is written before the pointer is
  checked. There is one such line for each of these calls, and no other.
\<close>

theorem log_lines_have_loggers:
  "handlers_logged (final (run_calls k g cs (new_world w))) \<and>
   (\<exists>done todo. cs = done @ todo \<and> (\<forall>s'. run_calls k g cs (new_world w) = Inr s' \<longrightarrow> todo = []) \<and>
     null_lines (final (run_calls k g cs (new_world w))) =
       replicate (length (filter null_init done)) (None, InitLine))"
  using calls_log [OF guarded_new, of cs k g w]
  by (auto simp: guarded_def null_lines_def new_world_def)

theorem log_lines_have_loggers_witness:
  "null_lines (final (run_calls test_kernel mute_async
     [Init ''pilot'' ''n'' None, StartLink, InitEnv None ''n'' (Some (UserLogger 1))] (new_world ()))) =
   [(None, InitLine)]"
proof -
  let ?cs = "[Init ''pilot'' ''n'' None, StartLink, InitEnv None ''n'' (Some (UserLogger 1))]"
  obtain s' where "startLink mute_async (init test_kernel ''pilot'' ''n'' None (new_world ())) = Inr s'"
    by (rule mute_link_starts [of "new_world ()" mute_async]) (simp_all add: mute_async_reads new_world_def)
  then obtain s2 where run: "run_calls test_kernel mute_async ?cs (new_world ()) = Inr s2" by simp
  then show ?thesis
    using log_lines_have_loggers [of test_kernel mute_async ?cs "()"] by (auto simp del: run_calls.simps)
qed

end
