(* ===== verification/Decoders.thy ===== *)
theory Decoders
  imports Discovery_Messages
begin

text \<open>
  The resource decoders of \<^verbatim>\<open>OpaqueResourceDecoder.h\<close> and the decoded resources of
  \<^verbatim>\<open>DecodedResource.h\<close>. Protobuf is a parameter: for a message type, its default value and the
  effect of \<^verbatim>\<open>ParseFromString\<close> (whether it succeeded, and the message it left behind); for the
  wrapper type \<^verbatim>\<open>Resource\<close>, the test \<^verbatim>\<open>Any::Is\<close> and the same parse.

  \<^verbatim>\<open>DecodedResource\<close> takes an \<^verbatim>\<open>OpaqueResourceDecoder&\<close>, an interface of two virtual functions. No class
  of the repository implements it: \<^verbatim>\<open>OpaqueResourceDecoderImpl\<close> has the functions but no base class,
  although a comment announces it as one, and cannot be passed. The interface is therefore a
  record of functions, the decoded resources are stated for every value of it, and the
  implementation is a class of its own. A decoder hands its message over in a \<^verbatim>\<open>std::unique_ptr\<close>,
  which the interface does not promise to be non-null; dereferencing a null one is a fault.
\<close>

section \<open>The protobuf parameter\<close>

record 'm message_class =
  default_message :: 'm
  parse_message :: "string \<Rightarrow> bool \<times> 'm"

record resource_class =
  is_resource :: "any_msg \<Rightarrow> bool"
  parse_resource :: "string \<Rightarrow> bool \<times> resource_msg"

section \<open>Conversion helpers\<close>

text \<open>
  \<^verbatim>\<open>unpackToOrThrow\<close>: despite its name it never throws; when the parse fails it prints a line
  and the message keeps whatever the parse left in it.
\<close>

definition unpackToOrThrow :: "(string \<Rightarrow> bool \<times> 'm) \<Rightarrow> any_msg \<Rightarrow> 'm" where
  "unpackToOrThrow parse a = snd (parse (any_value a))"

definition anyConvert :: "'m message_class \<Rightarrow> any_msg \<Rightarrow> 'm" where
  "anyConvert c a = unpackToOrThrow (parse_message c) a"

definition anyConvertAndValidate :: "'m message_class \<Rightarrow> any_msg \<Rightarrow> 'm" where
  "anyConvertAndValidate c a = anyConvert c a"

definition getStringField :: "'m \<Rightarrow> string \<Rightarrow> string" where
  "getStringField message field_name = []"

section \<open>Decoders\<close>

text \<open>The interface \<^verbatim>\<open>OpaqueResourceDecoder\<close>: its two virtual functions.\<close>

record 'm resource_decoder =
  decodeResource :: "any_msg \<Rightarrow> 'm option"
  resourceName :: "'m \<Rightarrow> string"

text \<open>
  The class \<^verbatim>\<open>OpaqueResourceDecoderImpl\<close>, which derives from nothing: its field, and its two
  functions for the message class it is instantiated with.
\<close>

record decoder_impl =
  impl_name_field :: string

definition OpaqueResourceDecoderImpl :: "string \<Rightarrow> decoder_impl" where
  "OpaqueResourceDecoderImpl field = \<lparr>impl_name_field = field\<rparr>"

definition impl_decodeResource :: "'m message_class \<Rightarrow> decoder_impl \<Rightarrow> any_msg \<Rightarrow> 'm option" where
  "impl_decodeResource c d a = (let typed_message = default_message c in
     Some (if any_type_url a \<noteq> [] then anyConvertAndValidate c a else typed_message))"

definition impl_resourceName :: "decoder_impl \<Rightarrow> 'm \<Rightarrow> string" where
  "impl_resourceName d m = getStringField m (impl_name_field d)"

text \<open>
  The earlier decoder class of \<^verbatim>\<open>ResourceDecoder.h\<close>. It calls helpers of a \<^verbatim>\<open>MessageUtil\<close> that the
  repository does not have, so they are parameters: the conversion, which also takes a
  visitor and may throw (\<open>None\<close>), and the field access.
\<close>

record ('m, 'v) message_util =
  util_convert :: "any_msg \<Rightarrow> 'v \<Rightarrow> 'm option"
  util_field :: "'m \<Rightarrow> string \<Rightarrow> string"

definition visitor_decodeResource ::
    "('m, 'v) message_util \<Rightarrow> 'm message_class \<Rightarrow> 'v \<Rightarrow> any_msg \<Rightarrow> 'm option" where
  "visitor_decodeResource u c visitor a =
    (if any_type_url a \<noteq> [] then util_convert u a visitor else Some (default_message c))"

definition visitor_resourceName :: "('m, 'v) message_util \<Rightarrow> string \<Rightarrow> 'm \<Rightarrow> string" where
  "visitor_resourceName u name_field m = util_field u m name_field"

section \<open>Decoded resources\<close>

text \<open>\<^verbatim>\<open>repeatedPtrFieldToVector\<close>: one \<^verbatim>\<open>push_back\<close> per element.\<close>

fun copy_back :: "'a list \<Rightarrow> 'a list \<Rightarrow> 'a list" where
  "copy_back [] ys = ys"
| "copy_back (x # xs) ys = copy_back xs (ys @ [x])"

definition repeatedPtrFieldToVector :: "string list \<Rightarrow> string list" where
  "repeatedPtrFieldToVector xs = copy_back xs []"

record 'm decoded_resource =
  dec_resource :: "'m option"
  dec_has_resource :: bool
  dec_name :: string
  dec_aliases :: "string list"
  dec_version :: string

text \<open>
  The private constructor all others delegate to. The members are initialised in the order of
  their declaration, so the name is looked up in the decoded message, and only where the
  given name is empty.
\<close>

definition make_decoded :: "'m resource_decoder \<Rightarrow> string \<Rightarrow> string list \<Rightarrow> any_msg \<Rightarrow> bool \<Rightarrow> string \<Rightarrow>
    fault + 'm decoded_resource" where
  "make_decoded d name aliases resource has_resource version =
    (let p = decodeResource d resource in
     bind_res (if name \<noteq> [] then Inr name
               else (case p of None \<Rightarrow> Inl NullResource | Some m \<Rightarrow> Inr (resourceName d m)))
       (\<lambda>nm. Inr \<lparr>dec_resource = p, dec_has_resource = has_resource, dec_name = nm,
          dec_aliases = repeatedPtrFieldToVector aliases, dec_version = version\<rparr>))"

text \<open>From a wrapper message; an unset \<^verbatim>\<open>resource()\<close> reads as the default \<^verbatim>\<open>Any\<close>.\<close>

definition DecodedResource :: "'m resource_decoder \<Rightarrow> resource_msg \<Rightarrow> fault + 'm decoded_resource" where
  "DecodedResource d r = make_decoded d (res_name r) []
     (case res_resource r of None \<Rightarrow> empty_any | Some a \<Rightarrow> a) (res_resource r \<noteq> None) (res_version r)"

record inline_entry =
  entry_name :: string
  entry_version :: string
  entry_resource :: "any_msg option"

definition DecodedResource_inline ::
    "'m resource_decoder \<Rightarrow> inline_entry \<Rightarrow> fault + 'm decoded_resource" where
  "DecodedResource_inline d e = make_decoded d (entry_name e) []
     (case entry_resource e of None \<Rightarrow> empty_any | Some a \<Rightarrow> a) True (entry_version e)"

definition DecodedResource_message ::
    "'m option \<Rightarrow> string \<Rightarrow> string list \<Rightarrow> string \<Rightarrow> 'm decoded_resource" where
  "DecodedResource_message p name aliases version = \<lparr>dec_resource = p, dec_has_resource = True,
     dec_name = name, dec_aliases = aliases, dec_version = version\<rparr>"

text \<open>The accessors; \<^verbatim>\<open>resource()\<close> dereferences its pointer whatever \<^verbatim>\<open>hasResource()\<close> says.\<close>

definition get_resource :: "'m decoded_resource \<Rightarrow> fault + 'm" where
  "get_resource r = (case dec_resource r of None \<Rightarrow> Inl NullResource | Some m \<Rightarrow> Inr m)"

definition hasResource :: "'m decoded_resource \<Rightarrow> bool" where
  "hasResource r = dec_has_resource r"

definition fromResource_any :: "resource_class \<Rightarrow> 'm resource_decoder \<Rightarrow> any_msg \<Rightarrow> string \<Rightarrow>
    fault + 'm decoded_resource" where
  "fromResource_any rc d resource version =
    (if is_resource rc resource
     then DecodedResource d ((unpackToOrThrow (parse_resource rc) resource)\<lparr>res_version := version\<rparr>)
     else make_decoded d [] [] resource True version)"

definition fromResource :: "'m resource_decoder \<Rightarrow> resource_msg \<Rightarrow> fault + 'm decoded_resource" where
  "fromResource d r = DecodedResource d r"

section \<open>What decoding yields\<close>

lemma copy_back_append: "copy_back xs ys = ys @ xs"
  by (induction xs arbitrary: ys) simp_all

lemma repeatedPtrFieldToVector_id [simp]: "repeatedPtrFieldToVector xs = xs"
  by (simp add: repeatedPtrFieldToVector_def copy_back_append)

text \<open>
  The implementation by itself: it never returns a null pointer; a failed parse is not told
  from a successful one, the message keeping what the parse left in it; and it finds no name,
  whatever the message and the field, as the field is never read.
\<close>

lemma impl_never_null: "impl_decodeResource c d a \<noteq> None"
  by (simp add: impl_decodeResource_def)

lemma impl_ignores_failure:
  "any_type_url a \<noteq> [] \<Longrightarrow> parse_message c (any_value a) = (ok, m) \<Longrightarrow> impl_decodeResource c d a = Some m"
  by (simp add: impl_decodeResource_def anyConvertAndValidate_def anyConvert_def unpackToOrThrow_def)

lemma impl_nameless: "impl_resourceName d m = []"
  by (simp add: impl_resourceName_def getStringField_def)

text \<open>The earlier class leaves its helpers alone for a synthetic empty resource.\<close>

lemma visitor_skips_empty: "any_type_url a = [] \<Longrightarrow> visitor_decodeResource u c visitor a = Some (default_message c)"
  by (simp add: visitor_decodeResource_def)

text \<open>
  The outcome of the constructor all others delegate to: it faults exactly when the decoder
  returns a null pointer and the name has to be asked for.
\<close>

lemma make_decoded_fault:
  "make_decoded d name as a h v = Inl e \<longleftrightarrow> name = [] \<and> decodeResource d a = None \<and> e = NullResource"
  by (auto simp: make_decoded_def Let_def split: option.split)

lemma make_decoded_Inr:
  "make_decoded d name as a h v = Inr x \<longleftrightarrow> (name \<noteq> [] \<or> decodeResource d a \<noteq> None) \<and>
    x = \<lparr>dec_resource = decodeResource d a, dec_has_resource = h,
      dec_name = (if name \<noteq> [] then name else resourceName d (the (decodeResource d a))),
      dec_aliases = as, dec_version = v\<rparr>"
  by (auto simp: make_decoded_def Let_def split: option.split)

text \<open>An inline entry claims to have its resource also where it has none.\<close>

lemma inline_claims_resource: "DecodedResource_inline d i = Inr x \<Longrightarrow> hasResource x \<and> dec_version x = entry_version i"
  by (auto simp: DecodedResource_inline_def make_decoded_Inr hasResource_def)

section \<open>Properties\<close>

text \<open>
  C24. Decoding is transparent to the wrapper, for every decoder: a resource inside a
  \<^verbatim>\<open>Resource\<close> message that does not name it has the very outcome of the bare resource, the fault of
  a null pointer included; one that does name it keeps that name and the same message, and does
  not even fault where the bare resource would. The version is that of the response and not
  of the wrapper, and the wrapper is opened once: what is inside it is decoded as it is.
\<close>

theorem wrapper_is_transparent:
  assumes "is_resource rc a" and "parse_resource rc (any_value a) = (ok, r)"
    and "res_resource r = Some b" and "\<not> is_resource rc b"
  shows "if res_name r = [] then fromResource_any rc d a v = fromResource_any rc d b v
    else \<exists>x. fromResource_any rc d a v = Inr x \<and> dec_name x = res_name r \<and> hasResource x \<and>
      dec_version x = v \<and> dec_resource x = decodeResource d b \<and>
      (\<forall>y. fromResource_any rc d b v = Inr y \<longrightarrow> get_resource x = get_resource y) \<and>
      (\<forall>e. fromResource_any rc d b v = Inl e \<longrightarrow> get_resource x = Inl e)"
proof -
  have a: "fromResource_any rc d a v = make_decoded d (res_name r) [] b True v"
    and b: "fromResource_any rc d b v = make_decoded d [] [] b True v"
    using assms by (simp_all add: fromResource_any_def DecodedResource_def unpackToOrThrow_def)
  show ?thesis
  proof (cases "res_name r = []")
    case False
    with make_decoded_Inr [of d "res_name r" "[]" b True v] show ?thesis
      by (auto simp: a b hasResource_def get_resource_def make_decoded_Inr make_decoded_fault split: option.split)
  qed (simp add: a b)
qed

text \<open>A decoder for the instances, which returns a null pointer for a resource without bytes.\<close>

definition echo_decoder :: "string resource_decoder" where
  "echo_decoder = \<lparr>decodeResource = (\<lambda>a. if any_value a = [] then None else Some (any_value a)),
     resourceName = (\<lambda>m. ''name of '' @ m)\<rparr>"

definition demo_resource :: "string \<Rightarrow> resource_class" where
  "demo_resource name = \<lparr>is_resource = (\<lambda>a. any_type_url a = ''t/envoy.service.discovery.v3.Resource''),
     parse_resource = (\<lambda>bs. (True, empty_resource\<lparr>res_name := name, res_version := ''3'',
       res_resource := Some \<lparr>any_type_url = ''t/Cluster'', any_value = bs\<rparr>\<rparr>))\<rparr>"

abbreviation bare :: "string \<Rightarrow> any_msg" where
  "bare bs \<equiv> \<lparr>any_type_url = ''t/Cluster'', any_value = bs\<rparr>"

abbreviation wrapped :: "string \<Rightarrow> any_msg" where
  "wrapped bs \<equiv> \<lparr>any_type_url = ''t/envoy.service.discovery.v3.Resource'', any_value = bs\<rparr>"

theorem wrapper_is_transparent_witness:
  "fromResource_any (demo_resource []) echo_decoder (wrapped ''x'') ''7'' =
     fromResource_any (demo_resource []) echo_decoder (bare ''x'') ''7'' \<and>
   (\<exists>x. fromResource_any (demo_resource ''r'') echo_decoder (wrapped []) ''7'' = Inr x \<and> dec_name x = ''r'' \<and>
     dec_version x = ''7'' \<and> get_resource x = Inl NullResource) \<and>
   fromResource_any (demo_resource ''r'') echo_decoder (bare []) ''7'' = Inl NullResource"
proof -
  have bad: "fromResource_any (demo_resource ''r'') echo_decoder (bare []) ''7'' = Inl NullResource"
    by (simp add: fromResource_any_def make_decoded_fault demo_resource_def echo_decoder_def)
  from wrapper_is_transparent [of "demo_resource []" "wrapped ''x''" True
      "empty_resource\<lparr>res_name := [], res_version := ''3'', res_resource := Some (bare ''x'')\<rparr>" "bare ''x''" echo_decoder "''7''"]
    wrapper_is_transparent [of "demo_resource ''r''" "wrapped []" True
      "empty_resource\<lparr>res_name := ''r'', res_version := ''3'', res_resource := Some (bare [])\<rparr>" "bare []" echo_decoder "''7''"]
  show ?thesis by (auto simp: demo_resource_def bad [unfolded demo_resource_def])
qed

text \<open>
  C25. What becomes of a \<^verbatim>\<open>Resource\<close> message, for every decoder. The construction faults exactly
  when the message has no name and the decoder returns a null pointer. Otherwise the decoded
  resource has the message's name or, without one, the name the decoder finds; the message's
  version; none of its aliases, whatever they are; and the flag \<^verbatim>\<open>hasResource()\<close> of the message. The
  flag does not protect \<^verbatim>\<open>resource()\<close>: an unset resource is decoded as the empty one and can be
  read, and a null pointer is dereferenced even where the flag is set.
\<close>

theorem decoded_resource_outcome:
  fixes r :: resource_msg
  defines "b \<equiv> (case res_resource r of None \<Rightarrow> empty_any | Some a \<Rightarrow> a)"
  shows "(fromResource d r = Inl e \<longleftrightarrow> res_name r = [] \<and> decodeResource d b = None \<and> e = NullResource) \<and>
    (\<forall>x. fromResource d r = Inr x \<longrightarrow> dec_aliases x = [] \<and> dec_version x = res_version r \<and>
       (hasResource x \<longleftrightarrow> res_resource r \<noteq> None) \<and>
       (case decodeResource d b of
          None \<Rightarrow> get_resource x = Inl NullResource \<and> dec_name x = res_name r
        | Some m \<Rightarrow> get_resource x = Inr m \<and> dec_name x = (if res_name r = [] then resourceName d m else res_name r)))"
  by (auto simp: fromResource_def DecodedResource_def b_def [symmetric] make_decoded_fault make_decoded_Inr
      hasResource_def get_resource_def split: option.split)

theorem decoded_resource_outcome_witness:
  "fromResource echo_decoder empty_resource = Inl NullResource \<and>
   (\<exists>x. fromResource echo_decoder (empty_resource\<lparr>res_resource := Some (bare ''x''), res_aliases := [''z'']\<rparr>) = Inr x \<and>
     dec_name x = ''name of x'' \<and> dec_aliases x = [] \<and> get_resource x = Inr ''x'')"
proof -
  let ?r = "empty_resource\<lparr>res_resource := Some (bare ''x''), res_aliases := [''z'']\<rparr>"
  have "fromResource echo_decoder ?r \<noteq> Inl e" for e
    using decoded_resource_outcome [of echo_decoder ?r e] by (simp add: echo_decoder_def)
  then obtain x where x: "fromResource echo_decoder ?r = Inr x" by (cases "fromResource echo_decoder ?r") auto
  with decoded_resource_outcome [of echo_decoder ?r] decoded_resource_outcome [of echo_decoder empty_resource NullResource]
  show ?thesis by (auto simp: echo_decoder_def empty_resource_def empty_any_def)
qed

end
