(* ===== verification/Transcoder.thy ===== *)
theory Transcoder
  imports Prelude
begin

text \<open>
  The text-format transcoder of \<^verbatim>\<open>protofile/\<close>: loading file descriptors with their
  dependencies, and parsing text into a message. The descriptor pool and the text parser are
  protobuf's and are parameters; the calls of \<^verbatim>\<open>BuildFile\<close> are recorded in the order they are
  made.
\<close>

section \<open>Parameters\<close>

text \<open>
  \<open>find_file\<close> and \<open>find_type\<close> say whether the lookups by name return a descriptor; \<open>parse_file\<close> is
  \<^verbatim>\<open>ParseFromString\<close> into a fresh \<^verbatim>\<open>FileDescriptorProto\<close>; \<open>unescape\<close> is the output of
  \<^verbatim>\<open>absl::Base64Unescape\<close>; \<open>text_parse\<close> fills a message from text, \<open>serialize\<close> and \<open>parse_bytes\<close> are
  the binary format.
\<close>

record ('p, 'f, 'm) pool_ops =
  find_file :: "string \<Rightarrow> 'p \<Rightarrow> bool"
  find_type :: "string \<Rightarrow> 'p \<Rightarrow> bool"
  build_file :: "'f \<Rightarrow> 'p \<Rightarrow> 'p"
  parse_file :: "string \<Rightarrow> 'f"
  unescape :: "string \<Rightarrow> string"
  generated_pool :: "'p option"
  text_parse :: "string \<Rightarrow> 'm \<Rightarrow> 'm option"
  serialize :: "'m \<Rightarrow> string option"
  parse_bytes :: "string \<Rightarrow> 'm \<Rightarrow> bool \<times> 'm"

text \<open>\<^verbatim>\<open>FileDescriptorInfo\<close>: file name, base64 bytes, and the null-terminated array of dependencies.\<close>

datatype file_info = FileInfo (file_name: string) (file_bytes: string) (deps: "file_info list")

section \<open>Loading descriptors\<close>

text \<open>\<^verbatim>\<open>internal::loadFileDescriptors\<close> of \<^verbatim>\<open>file_descriptor_info.cc\<close>.\<close>

definition build_next :: "('p, 'f, 'm) pool_ops \<Rightarrow> 'f \<Rightarrow> 'p \<times> 'f list \<Rightarrow> 'p \<times> 'f list" where
  "build_next ops f st = (build_file ops f (fst st), snd st @ [f])"

fun loadFileDescriptors :: "('p, 'f, 'm) pool_ops \<Rightarrow> file_info \<Rightarrow> 'p \<times> 'f list \<Rightarrow> 'p \<times> 'f list"
  and loadDeps :: "('p, 'f, 'm) pool_ops \<Rightarrow> file_info list \<Rightarrow> 'p \<times> 'f list \<Rightarrow> 'p \<times> 'f list"
where
  "loadFileDescriptors ops (FileInfo name bytes ds) st =
    (if find_file ops name (fst st) then st
     else build_next ops (parse_file ops (unescape ops bytes)) (loadDeps ops ds st))"
| "loadDeps ops [] st = st"
| "loadDeps ops (d # ds) st = loadDeps ops ds (loadFileDescriptors ops d st)"

text \<open>
  \<^verbatim>\<open>TextFormatTranscoder::loadFileDescriptors\<close>: the same walk, but the decoding of the bytes is
  commented out, so that every file is built from the empty string.
\<close>

fun transcoderLoad :: "('p, 'f, 'm) pool_ops \<Rightarrow> file_info \<Rightarrow> 'p \<times> 'f list \<Rightarrow> 'p \<times> 'f list"
  and transcoderLoadDeps :: "('p, 'f, 'm) pool_ops \<Rightarrow> file_info list \<Rightarrow> 'p \<times> 'f list \<Rightarrow> 'p \<times> 'f list"
where
  "transcoderLoad ops (FileInfo name bytes ds) st =
    (if find_file ops name (fst st) then st
     else build_next ops (parse_file ops []) (transcoderLoadDeps ops ds st))"
| "transcoderLoadDeps ops [] st = st"
| "transcoderLoadDeps ops (d # ds) st = transcoderLoadDeps ops ds (transcoderLoad ops d st)"

section \<open>Parsing text\<close>

record 'p transcoder =
  descriptor_pool :: 'p
  allow_global_fallback :: bool

text \<open>
  The constructor, on a fresh pool, and the method that loads descriptors into the pool of
  the object.
\<close>

definition TextFormatTranscoder :: "'p \<Rightarrow> bool \<Rightarrow> 'p transcoder" where
  "TextFormatTranscoder fresh fallback = \<lparr>descriptor_pool = fresh, allow_global_fallback = fallback\<rparr>"

definition load_descriptors ::
    "('p, 'f, 'm) pool_ops \<Rightarrow> file_info \<Rightarrow> 'p transcoder \<Rightarrow> 'p transcoder" where
  "load_descriptors ops info tr =
     tr\<lparr>descriptor_pool := fst (transcoderLoad ops info (descriptor_pool tr, []))\<rparr>"

text \<open>The construction of the dynamic message is commented out: both branches return null.\<close>

definition createEmptyDynamicMessage ::
    "('p, 'f, 'm) pool_ops \<Rightarrow> 'p transcoder \<Rightarrow> string \<Rightarrow> 'm option" where
  "createEmptyDynamicMessage ops tr type_name =
    (let own = find_type ops type_name (descriptor_pool tr);
         descriptor = (if allow_global_fallback tr \<and> \<not> own
           then (case generated_pool ops of None \<Rightarrow> own | Some p \<Rightarrow> find_type ops type_name p) else own)
     in if \<not> descriptor then None else None)"

definition toBinarySerializationInternal ::
    "('p, 'f, 'm) pool_ops \<Rightarrow> 'p transcoder \<Rightarrow> string \<Rightarrow> string \<Rightarrow> string option" where
  "toBinarySerializationInternal ops tr type_name input =
    (case createEmptyDynamicMessage ops tr type_name of
       None \<Rightarrow> None
     | Some m \<Rightarrow> (case text_parse ops input m of None \<Rightarrow> None | Some m' \<Rightarrow> serialize ops m'))"

definition parseInto ::
    "('p, 'f, 'm) pool_ops \<Rightarrow> 'p transcoder \<Rightarrow> string \<Rightarrow> string \<Rightarrow> 'm \<Rightarrow> bool \<times> 'm" where
  "parseInto ops tr type_name input msg =
    (case toBinarySerializationInternal ops tr type_name input of
       None \<Rightarrow> (False, msg)
     | Some bytes \<Rightarrow> parse_bytes ops bytes msg)"

text \<open>\<^verbatim>\<open>createDynamicMessage\<close> of \<^verbatim>\<open>create_dynamic_message.cc\<close>; \<open>bytes\<close> is the message's serialization.\<close>

definition createDynamicMessage ::
    "('p, 'f, 'm) pool_ops \<Rightarrow> 'p transcoder \<Rightarrow> string \<Rightarrow> string \<Rightarrow> 'm option" where
  "createDynamicMessage ops tr type_name bytes =
    map_option (\<lambda>m. snd (parse_bytes ops bytes m)) (createEmptyDynamicMessage ops tr type_name)"

section \<open>Files and their dependencies\<close>

fun files :: "file_info \<Rightarrow> file_info list" where
  "files (FileInfo name bytes ds) = FileInfo name bytes ds # concat (map files ds)"

lemma files_self: "x \<in> set (files x)"
  by (cases x) simp

lemma size_dep: "d \<in> set (deps x) \<Longrightarrow> size d < size x"
proof (cases x)
  case (FileInfo n b ds)
  assume "d \<in> set (deps x)"
  then have "size d \<le> size_list size ds" using FileInfo by (auto intro: size_list_estimation')
  then show ?thesis using FileInfo by simp
qed

lemma files_size: "y \<in> set (files x) \<Longrightarrow> size y \<le> size x"
proof (induction x rule: files.induct)
  case (1 name bytes ds)
  show ?case
  proof (cases "y = FileInfo name bytes ds")
    case False
    with "1.prems" obtain d where d: "d \<in> set ds" "y \<in> set (files d)" by auto
    have "size y \<le> size d" by (rule "1.IH" [OF d])
    also have "\<dots> \<le> size (FileInfo name bytes ds)"
      using size_dep [of d "FileInfo name bytes ds"] d(1) by simp
    finally show ?thesis .
  qed simp
qed

lemma files_trans: "y \<in> set (files x) \<Longrightarrow> z \<in> set (files y) \<Longrightarrow> z \<in> set (files x)"
  by (induction x rule: files.induct) auto

lemma files_not_below:
  assumes "d \<in> set (deps x)" and "y \<in> set (files d)"
  shows "y \<noteq> x"
  using size_dep [OF assms(1)] files_size [OF assms(2)] by auto

text \<open>
  What the loader relies on of the pool, as protobuf documents it: \<^verbatim>\<open>BuildFile\<close> registers a file under
  its name when the files it imports are registered and there is no problem with the message,
  and returns null otherwise (the loader does not look); it forgets nothing. Whether a message
  has a problem is protobuf's to say and may depend on the pool: the parameter \<open>accepts\<close>.
\<close>

definition pool_laws :: "('p, 'f, 'm) pool_ops \<Rightarrow> ('f \<Rightarrow> string) \<Rightarrow> ('f \<Rightarrow> string set) \<Rightarrow> ('f \<Rightarrow> 'p \<Rightarrow> bool) \<Rightarrow> bool" where
  "pool_laws ops nm imports accepts \<longleftrightarrow> (\<forall>f p n. find_file ops n (build_file ops f p) \<longleftrightarrow>
     find_file ops n p \<or> n = nm f \<and> accepts f p \<and> (\<forall>i\<in>imports f. find_file ops i p))"

text \<open>The embedded descriptors are what they say: their bytes decode to the file of that name.\<close>

definition honest :: "('p, 'f, 'm) pool_ops \<Rightarrow> ('f \<Rightarrow> string) \<Rightarrow> ('f \<Rightarrow> string set) \<Rightarrow> file_info \<Rightarrow> bool" where
  "honest ops nm imports root \<longleftrightarrow> (\<forall>x\<in>set (files root).
     nm (parse_file ops (unescape ops (file_bytes x))) = file_name x \<and>
     imports (parse_file ops (unescape ops (file_bytes x))) = file_name ` set (deps x)) \<and>
   (\<forall>x\<in>set (files root). \<forall>y\<in>set (files root). file_name x = file_name y \<longrightarrow> x = y)"

text \<open>The files are valid: a pool that has their imports and not the file itself has no problem with them.\<close>

definition valid_files :: "('p, 'f, 'm) pool_ops \<Rightarrow> ('f \<Rightarrow> string) \<Rightarrow> ('f \<Rightarrow> string set) \<Rightarrow> ('f \<Rightarrow> 'p \<Rightarrow> bool) \<Rightarrow>
    file_info \<Rightarrow> bool" where
  "valid_files ops nm imports accepts root \<longleftrightarrow> (\<forall>x\<in>set (files root). \<forall>p.
     let f = parse_file ops (unescape ops (file_bytes x)) in
     (\<forall>i\<in>imports f. find_file ops i p) \<longrightarrow> \<not> find_file ops (nm f) p \<longrightarrow> accepts f p)"

section \<open>Loading is complete\<close>

text \<open>
  What a load of the files \<open>xs\<close> achieves: it builds, once each, files of their trees that were
  not there, and afterwards all of them are there. \<open>closed\<close>: with a file all its dependencies.
\<close>

definition closed ::
    "('p, 'f, 'm) pool_ops \<Rightarrow> file_info \<Rightarrow> 'p \<times> 'f list \<Rightarrow> bool" where
  "closed ops root st \<longleftrightarrow> (\<forall>x\<in>set (files root). find_file ops (file_name x) (fst st) \<longrightarrow>
     (\<forall>y\<in>set (files x). find_file ops (file_name y) (fst st)))"

definition loaded :: "('p, 'f, 'm) pool_ops \<Rightarrow> ('f \<Rightarrow> string) \<Rightarrow> file_info \<Rightarrow> file_info list \<Rightarrow>
    'p \<times> 'f list \<Rightarrow> 'p \<times> 'f list \<Rightarrow> bool" where
  "loaded ops nm root xs st st' \<longleftrightarrow> closed ops root st' \<and>
    (\<forall>x\<in>set xs. \<forall>y\<in>set (files x). find_file ops (file_name y) (fst st')) \<and>
    (\<exists>fs. snd st' = snd st @ fs \<and> distinct (map nm fs) \<and>
      (\<forall>n. find_file ops n (fst st') \<longleftrightarrow> find_file ops n (fst st) \<or> n \<in> nm ` set fs) \<and>
      (\<forall>n\<in>nm ` set fs. \<not> find_file ops n (fst st) \<and>
        (\<exists>x\<in>set xs. \<exists>y\<in>set (files x). n = file_name y)))"

lemma loaded_nothing:
  "closed ops root st \<Longrightarrow> (\<And>x y. x \<in> set xs \<Longrightarrow> y \<in> set (files x) \<Longrightarrow> find_file ops (file_name y) (fst st)) \<Longrightarrow>
   loaded ops nm root xs st st"
  by (simp add: loaded_def)

lemma loaded_Cons:
  assumes "loaded ops nm root [x] st st1" and "loaded ops nm root xs st1 st2"
  shows "loaded ops nm root (x # xs) st st2"
proof -
  obtain fs where f: "snd st1 = snd st @ fs" "distinct (map nm fs)"
    "\<forall>n. find_file ops n (fst st1) \<longleftrightarrow> find_file ops n (fst st) \<or> n \<in> nm ` set fs"
    "\<forall>n\<in>nm ` set fs. \<not> find_file ops n (fst st) \<and> (\<exists>y\<in>set (files x). n = file_name y)"
    using assms(1) unfolding loaded_def by auto
  obtain gs where g: "snd st2 = snd st1 @ gs" "distinct (map nm gs)"
    "\<forall>n. find_file ops n (fst st2) \<longleftrightarrow> find_file ops n (fst st1) \<or> n \<in> nm ` set gs"
    "\<forall>n\<in>nm ` set gs. \<not> find_file ops n (fst st1) \<and> (\<exists>z\<in>set xs. \<exists>y\<in>set (files z). n = file_name y)"
    using assms(2) unfolding loaded_def by auto
  have "nm ` set fs \<inter> nm ` set gs = {}" using f(3) g(4) by blast
  then have "distinct (map nm (fs @ gs))" using f(2) g(2) by simp
  moreover have "\<forall>z\<in>set (x # xs). \<forall>y\<in>set (files z). find_file ops (file_name y) (fst st2)"
    using assms g(3) unfolding loaded_def by auto
  moreover have "closed ops root st2" using assms(2) by (simp add: loaded_def)
  moreover have "\<forall>n\<in>nm ` set (fs @ gs). \<not> find_file ops n (fst st) \<and>
      (\<exists>z\<in>set (x # xs). \<exists>y\<in>set (files z). n = file_name y)"
    using f(3,4) g(4) by auto
  ultimately show ?thesis
    unfolding loaded_def using f(1,3) g(1,3) by (intro conjI exI [of _ "fs @ gs"]) auto
qed

lemma files_below: "y \<in> set (files x) \<longleftrightarrow> y = x \<or> (\<exists>d\<in>set (deps x). y \<in> set (files d))"
  by (cases x) auto

text \<open>A file does not carry the name of a file below it.\<close>

lemma honest_fresh:
  assumes hon: "honest ops nm imports root" and x: "x \<in> set (files root)"
    and "d \<in> set (deps x)" and "y \<in> set (files d)"
  shows "file_name y \<noteq> file_name x"
proof
  assume "file_name y = file_name x"
  moreover have "y \<in> set (files root)" using files_trans [OF x] assms(3,4) files_below [of y x] by blast
  ultimately have "y = x" using hon x by (auto simp: honest_def)
  with files_not_below [OF assms(3,4)] show False by simp
qed

lemma closed_built:
  assumes hon: "honest ops nm imports root" and x: "x \<in> set (files root)" and "closed ops root st1"
    and below: "\<forall>d\<in>set (deps x). \<forall>y\<in>set (files d). find_file ops (file_name y) (fst st1)"
    and find2: "\<And>n. find_file ops n (fst st2) \<longleftrightarrow> find_file ops n (fst st1) \<or> n = file_name x"
  shows "closed ops root st2"
  unfolding closed_def
proof (intro ballI impI)
  fix z y
  assume z: "z \<in> set (files root)" and "find_file ops (file_name z) (fst st2)" and y: "y \<in> set (files z)"
  then consider "find_file ops (file_name z) (fst st1)" | "z = x"
    using find2 hon x unfolding honest_def by blast
  then show "find_file ops (file_name y) (fst st2)"
  proof cases
    case 1
    with assms(3) z y show ?thesis by (simp add: closed_def find2)
  next
    case 2
    with y files_below [of y x] below show ?thesis by (auto simp: find2)
  qed
qed

lemma loaded_built:
  assumes laws: "pool_laws ops nm imports accepts" and hon: "honest ops nm imports root"
    and valid: "valid_files ops nm imports accepts root" and x: "x \<in> set (files root)" and new: "\<not> find_file ops (file_name x) (fst st)"
    and ds: "loaded ops nm root (deps x) st st1"
  shows "loaded ops nm root [x] st (build_next ops (parse_file ops (unescape ops (file_bytes x))) st1)"
    (is "loaded _ _ _ _ _ ?st2")
proof -
  let ?f = "parse_file ops (unescape ops (file_bytes x))"
  have f: "nm ?f = file_name x" "imports ?f = file_name ` set (deps x)"
    using hon x by (auto simp: honest_def)
  obtain fs where fs: "snd st1 = snd st @ fs" "distinct (map nm fs)"
    "\<forall>n. find_file ops n (fst st1) \<longleftrightarrow> find_file ops n (fst st) \<or> n \<in> nm ` set fs"
    "\<forall>n\<in>nm ` set fs. \<not> find_file ops n (fst st) \<and> (\<exists>d\<in>set (deps x). \<exists>y\<in>set (files d). n = file_name y)"
    using ds unfolding loaded_def by auto
  have below: "\<forall>d\<in>set (deps x). \<forall>y\<in>set (files d). find_file ops (file_name y) (fst st1)"
    using ds unfolding loaded_def by auto
  have fresh: "file_name x \<notin> nm ` set fs"
    using fs(4) honest_fresh [OF hon x] by metis
  have imp: "\<forall>i\<in>imports ?f. find_file ops i (fst st1)" using below files_self by (auto simp: f)
  moreover have "\<not> find_file ops (file_name x) (fst st1)" using new fresh fs(3) by simp
  ultimately have "accepts ?f (fst st1)" using valid x f(1) by (auto simp: valid_files_def Let_def)
  with laws imp have find2: "find_file ops n (fst ?st2) \<longleftrightarrow> find_file ops n (fst st1) \<or> n = file_name x" for n
    by (auto simp: pool_laws_def build_next_def f)
  have "closed ops root ?st2"
    by (rule closed_built [OF hon x _ below find2]) (use ds in \<open>simp add: loaded_def\<close>)
  moreover have "\<forall>y\<in>set (files x). find_file ops (file_name y) (fst ?st2)"
    using files_below [of _ x] below by (auto simp: find2)
  moreover have "find_file ops n (fst ?st2) \<longleftrightarrow> find_file ops n (fst st) \<or> n \<in> nm ` set (fs @ [?f])" for n
    using fs(3) by (auto simp: find2 f)
  moreover have "\<not> find_file ops n (fst st) \<and> (\<exists>y\<in>set (files x). n = file_name y)"
    if "n \<in> nm ` set (fs @ [?f])" for n
    using that new fs(4) files_below [of _ x] files_self [of x] by (auto simp: f)
  moreover have "distinct (map nm (fs @ [?f]))" using fs(2) fresh by (simp add: f)
  moreover have "snd ?st2 = snd st @ fs @ [?f]" by (simp add: build_next_def fs(1))
  ultimately show ?thesis
    unfolding loaded_def by (intro conjI exI [of _ "fs @ [?f]"]) simp_all
qed

lemma load_loaded:
  shows "pool_laws ops nm imports accepts \<Longrightarrow> honest ops nm imports root \<Longrightarrow>
      valid_files ops nm imports accepts root \<Longrightarrow> x \<in> set (files root) \<Longrightarrow>
      closed ops root st \<Longrightarrow> loaded ops nm root [x] st (loadFileDescriptors ops x st)"
    and "pool_laws ops nm imports accepts \<Longrightarrow> honest ops nm imports root \<Longrightarrow>
      valid_files ops nm imports accepts root \<Longrightarrow> set xs \<subseteq> set (files root) \<Longrightarrow>
      closed ops root st \<Longrightarrow> loaded ops nm root xs st (loadDeps ops xs st)"
proof (induction ops x st and ops xs st rule: loadFileDescriptors_loadDeps.induct)
  case (1 ops name bytes ds st)
  let ?x = "FileInfo name bytes ds"
  show ?case
  proof (cases "find_file ops name (fst st)")
    case True
    have "loaded ops nm root [?x] st st"
    proof (rule loaded_nothing [OF "1.prems"(5)])
      fix z y
      assume "z \<in> set [?x]" and y: "y \<in> set (files z)"
      then have "z \<in> set (files root)" and "find_file ops (file_name z) (fst st)"
        using "1.prems"(4) True by simp_all
      with "1.prems"(5) y show "find_file ops (file_name y) (fst st)"
        unfolding closed_def by blast
    qed
    with True show ?thesis by simp
  next
    case False
    have "d \<in> set (files root)" if "d \<in> set ds" for d
      by (rule files_trans [OF "1.prems"(4)]) (use that files_self [of d] in auto)
    then have "set ds \<subseteq> set (files root)" by blast
    from "1.IH" [OF False "1.prems"(1-3) this "1.prems"(5)]
    have "loaded ops nm root (deps ?x) st (loadDeps ops ds st)" by simp
    from loaded_built [OF "1.prems"(1-4) _ this] False show ?thesis by simp
  qed
next
  case (2 ops st)
  then show ?case by (simp, intro loaded_nothing) simp_all
next
  case (3 ops d ds st)
  then have one: "loaded ops nm root [d] st (loadFileDescriptors ops d st)" by simp
  then have "closed ops root (loadFileDescriptors ops d st)" by (simp add: loaded_def)
  with "3.IH"(2) "3.prems" have "loaded ops nm root ds (loadFileDescriptors ops d st)
      (loadDeps ops ds (loadFileDescriptors ops d st))" by simp
  from loaded_Cons [OF one this] show ?case by simp
qed

text \<open>Valid or not, no file is ever registered without everything below it.\<close>

lemma load_closed:
  shows "pool_laws ops nm imports accepts \<Longrightarrow> honest ops nm imports root \<Longrightarrow> x \<in> set (files root) \<Longrightarrow>
      closed ops root st \<Longrightarrow> closed ops root (loadFileDescriptors ops x st)"
    and "pool_laws ops nm imports accepts \<Longrightarrow> honest ops nm imports root \<Longrightarrow> set xs \<subseteq> set (files root) \<Longrightarrow>
      closed ops root st \<Longrightarrow> closed ops root (loadDeps ops xs st)"
proof (induction ops x st and ops xs st rule: loadFileDescriptors_loadDeps.induct)
  case (1 ops name bytes ds st)
  let ?x = "FileInfo name bytes ds" and ?f = "parse_file ops (unescape ops bytes)" and ?st1 = "loadDeps ops ds st"
  show ?case
  proof (cases "find_file ops name (fst st)")
    case False
    have "d \<in> set (files root)" if "d \<in> set ds" for d
      by (rule files_trans [OF "1.prems"(3)]) (use that files_self [of d] in auto)
    then have sub: "set ds \<subseteq> set (files root)" by blast
    have c: "closed ops root ?st1" by (rule "1.IH" [OF False "1.prems"(1,2) sub "1.prems"(4)])
    have f: "nm ?f = name" "imports ?f = file_name ` set ds"
      using "1.prems"(2,3) by (force simp: honest_def)+
    have find2: "find_file ops n (fst (build_next ops ?f ?st1)) \<longleftrightarrow> find_file ops n (fst ?st1) \<or>
        n = name \<and> accepts ?f (fst ?st1) \<and> (\<forall>d\<in>set ds. find_file ops (file_name d) (fst ?st1))" for n
      using "1.prems"(1) by (simp add: pool_laws_def build_next_def f)
    have "closed ops root (build_next ops ?f ?st1)"
    proof (cases "accepts ?f (fst ?st1) \<and> (\<forall>d\<in>set ds. find_file ops (file_name d) (fst ?st1))")
      case True
      with c sub have "\<forall>d\<in>set (deps ?x). \<forall>y\<in>set (files d). find_file ops (file_name y) (fst ?st1)"
        by (auto simp: closed_def)
      from closed_built [OF "1.prems"(2,3) c this] True find2 show ?thesis by simp
    next
      case False
      with c show ?thesis unfolding closed_def find2 by blast
    qed
    with False show ?thesis by simp
  qed (use "1.prems" in simp)
next
  case (3 ops d ds st)
  then show ?case by simp
qed simp

section \<open>Properties\<close>

text \<open>
  C26. Loading respects dependencies and is complete: into a pool that holds none of the files
  of an honest descriptor, the load registers no file without all the files below it; and if
  the files are valid, it builds every file of the dependency tree exactly once, and every
  build succeeds, its imports being built before it.
\<close>

theorem load_registers_dependencies:
  assumes "pool_laws ops nm imports accepts" and "honest ops nm imports root"
    and "\<forall>x\<in>set (files root). \<not> find_file ops (file_name x) p"
  shows "\<exists>p' fs. loadFileDescriptors ops root (p, []) = (p', fs) \<and>
    (\<forall>x\<in>set (files root). find_file ops (file_name x) p' \<longrightarrow>
      (\<forall>y\<in>set (files x). find_file ops (file_name y) p')) \<and>
    (valid_files ops nm imports accepts root \<longrightarrow>
      (\<forall>x\<in>set (files root). find_file ops (file_name x) p') \<and>
      distinct (map nm fs) \<and> nm ` set fs = file_name ` set (files root))"
proof -
  have c: "closed ops root (p, [])" using assms(3) by (auto simp: closed_def)
  obtain p' fs where r: "loadFileDescriptors ops root (p, []) = (p', fs)" by force
  have "(\<forall>x\<in>set (files root). find_file ops (file_name x) p') \<and> distinct (map nm fs) \<and>
      nm ` set fs = file_name ` set (files root)" if "valid_files ops nm imports accepts root"
  proof -
    have l: "loaded ops nm root [root] (p, []) (p', fs)"
      using load_loaded(1) [OF assms(1,2) that files_self c] by (simp add: r)
    have "\<forall>x\<in>set (files root). find_file ops (file_name x) p'" and "distinct (map nm fs)"
      and "\<forall>n. find_file ops n p' \<longleftrightarrow> find_file ops n p \<or> n \<in> nm ` set fs"
      and "\<forall>n\<in>nm ` set fs. \<exists>y\<in>set (files root). n = file_name y"
      using l by (auto simp: loaded_def)
    with assms(3) show ?thesis by blast
  qed
  moreover have "closed ops root (p', fs)" using load_closed(1) [OF assms(1,2) files_self c] by (simp add: r)
  ultimately show ?thesis using r by (auto simp: closed_def)
qed

text \<open>
  A pool for the instances: the registered names; a descriptor's bytes list name and imports,
  and the file \<open>c\<close> is not valid.
\<close>

definition names_pool :: "(string list, string list, string) pool_ops" where
  "names_pool = \<lparr>find_file = (\<lambda>n p. n \<in> set p), find_type = (\<lambda>n p. n \<in> set p),
     build_file = (\<lambda>f p. if hd f \<noteq> ''c'' \<and> set (tl f) \<subseteq> set p then hd f # p else p),
     parse_file = (\<lambda>bs. if bs = ''a'' then [''a'', ''b''] else if bs = ''d'' then [''d'', ''c''] else [bs]), unescape = (\<lambda>bs. bs),
     generated_pool = None, text_parse = (\<lambda>i m. Some i), serialize = Some,
     parse_bytes = (\<lambda>bs m. (True, bs))\<rparr>"

definition a_file :: file_info where
  "a_file = FileInfo ''a'' ''a'' [FileInfo ''b'' ''b'' []]"

abbreviation names_accepts :: "string list \<Rightarrow> string list \<Rightarrow> bool" where
  "names_accepts f p \<equiv> hd f \<noteq> ''c''"

lemma names_pool_laws: "pool_laws names_pool hd (\<lambda>f. set (tl f)) names_accepts"
  by (auto simp: pool_laws_def names_pool_def)

definition d_file :: file_info where
  "d_file = FileInfo ''d'' ''d'' [FileInfo ''c'' ''c'' []]"

lemma demo_files_honest:
  "honest names_pool hd (\<lambda>f. set (tl f)) a_file" "honest names_pool hd (\<lambda>f. set (tl f)) d_file"
  by (simp_all add: honest_def a_file_def d_file_def names_pool_def)

lemma a_file_valid: "valid_files names_pool hd (\<lambda>f. set (tl f)) names_accepts a_file"
  by (simp add: valid_files_def a_file_def names_pool_def Let_def)

theorem load_registers_dependencies_witness:
  "(\<exists>p' fs. loadFileDescriptors names_pool a_file ([], []) = (p', fs) \<and>
    (\<forall>x\<in>set (files a_file). find_file names_pool (file_name x) p') \<and>
    distinct (map hd fs) \<and> hd ` set fs = {''a'', ''b''}) \<and>
   (\<exists>p' fs. loadFileDescriptors names_pool d_file ([], []) = (p', fs) \<and>
    (find_file names_pool ''d'' p' \<longrightarrow> find_file names_pool ''c'' p'))"
proof -
  from load_registers_dependencies [OF names_pool_laws demo_files_honest(1), of "[]"]
  obtain p' fs where "loadFileDescriptors names_pool a_file ([], []) = (p', fs)"
    "\<forall>x\<in>set (files a_file). find_file names_pool (file_name x) p'" "distinct (map hd fs)"
    "hd ` set fs = file_name ` set (files a_file)"
    using a_file_valid by (auto simp: names_pool_def)
  moreover have "file_name ` set (files a_file) = {''a'', ''b''}" by (simp add: a_file_def)
  moreover from load_registers_dependencies [OF names_pool_laws demo_files_honest(2), of "[]"]
  obtain q gs where "loadFileDescriptors names_pool d_file ([], []) = (q, gs)"
    "\<forall>x\<in>set (files d_file). find_file names_pool (file_name x) q \<longrightarrow>
       (\<forall>y\<in>set (files x). find_file names_pool (file_name y) q)"
    by (auto simp: names_pool_def)
  ultimately show ?thesis by (simp add: d_file_def)
qed

lemma transcoderLoad_builds:
  "\<exists>k. snd (transcoderLoad ops x st) = snd st @ replicate k (parse_file ops [])"
  "\<exists>k. snd (transcoderLoadDeps ops xs st) = snd st @ replicate k (parse_file ops [])"
proof (induction ops x st and ops xs st rule: transcoderLoad_transcoderLoadDeps.induct)
  case (1 ops name bytes ds st)
  then show ?case
    by (cases "find_file ops name (fst st)")
      (auto simp: build_next_def replicate_append_same [symmetric] intro: exI [of _ 0] exI [of _ "Suc _"])
next
  case (2 ops st)
  show ?case by (auto intro: exI [of _ 0])
next
  case (3 ops d ds st)
  then show ?case by (auto simp: replicate_add [symmetric])
qed

lemma transcoder_never_parses:
  "parseInto ops tr type_name input msg = (False, msg)"
  "createDynamicMessage ops tr type_name bytes = None"
  "toBinarySerializationInternal ops tr type_name input = None"
  by (simp_all add: parseInto_def createDynamicMessage_def toBinarySerializationInternal_def
      createEmptyDynamicMessage_def Let_def)

text \<open>
  C27. The transcoder's own loader never looks at the bytes: every file it builds is the one
  the empty string parses to, so that no file of the tree becomes known under its name unless
  that is the name of the empty file; in particular the pool of a new transcoder learns none.
  Nor does the transcoder ever parse: whatever has been loaded and whatever the text,
  \<^verbatim>\<open>parseInto\<close> returns false and leaves the message as it was, and no dynamic message is created.
\<close>

theorem transcoder_load_ignores_bytes:
  assumes "pool_laws ops nm imports accepts" and "n \<noteq> nm (parse_file ops [])"
  shows "set (snd (transcoderLoad ops x (p, []))) \<subseteq> {parse_file ops []} \<and>
    (find_file ops n (fst (transcoderLoad ops x (p, []))) \<longleftrightarrow> find_file ops n p) \<and>
    (find_file ops n (descriptor_pool (load_descriptors ops x (TextFormatTranscoder p fallback))) \<longleftrightarrow>
      find_file ops n p) \<and>
    parseInto ops (load_descriptors ops x (TextFormatTranscoder p fallback)) type_name input msg = (False, msg) \<and>
    createDynamicMessage ops tr type_name bytes = None \<and>
    toBinarySerializationInternal ops tr type_name input = None"
proof -
  have "(n \<noteq> nm (parse_file ops []) \<and> pool_laws ops nm imports accepts \<longrightarrow>
      find_file ops n (fst (transcoderLoad ops x st)) = find_file ops n (fst st))"
    and "(n \<noteq> nm (parse_file ops []) \<and> pool_laws ops nm imports accepts \<longrightarrow>
      find_file ops n (fst (transcoderLoadDeps ops xs st)) = find_file ops n (fst st))" for ops x xs st
    by (induction ops x st and ops xs st rule: transcoderLoad_transcoderLoadDeps.induct)
      (auto simp: build_next_def pool_laws_def)
  from this(1) [of ops x "(p, [])"] transcoderLoad_builds(1) [of ops x "(p, [])"] assms show ?thesis
    by (auto simp: load_descriptors_def TextFormatTranscoder_def transcoder_never_parses)
qed

theorem transcoder_load_ignores_bytes_witness:
  "set (snd (transcoderLoad names_pool a_file ([], []))) \<subseteq> {[[]]} \<and>
   \<not> find_file names_pool ''a'' (fst (transcoderLoad names_pool a_file ([], [])))"
  using transcoder_load_ignores_bytes [OF names_pool_laws, of "''a''" a_file "[]"]
  by (simp add: names_pool_def)

end
