(* ===== verification/Async_Clients.thy ===== *)
theory Async_Clients
  imports Rpc_Stream
begin

text \<open>
  The two small clients whose difficulty is interleaving: the callback reactor \<^verbatim>\<open>Chatter\<close> of
  \<^verbatim>\<open>asnyc_ads/AsyncAdsClient.cpp\<close> and the reader and writer threads of \<^verbatim>\<open>ads/AdsClient.h\<close>. Both are
  step relations; a property holds of every state some interleaving reaches.
\<close>

section \<open>The reactor\<close>

text \<open>The request the constructor of \<^verbatim>\<open>Chatter\<close> builds, accessor by accessor.\<close>

definition chatter_request :: discovery_request where
  "chatter_request =
    (let r = empty_request\<lparr>req_version_info := req_version_info empty_request @ []\<rparr>;
         n = mutable_node r;
         n1 = n\<lparr>node_cluster := node_cluster n @ ''test-cluster''\<rparr>;
         n2 = n1\<lparr>node_id := node_id n1 @ ''test-id''\<rparr>
     in r\<lparr>req_node := Some n2,
          req_type_url := req_type_url r @ ''type.googleapis.com/envoy.config.cluster.v3.Cluster''\<rparr>)"

datatype chat_op = StartWrite discovery_request | StartWritesDone | StartRead | StartCall

record chatter =
  requests :: "discovery_request list"
  requests_iterator :: nat
  response :: discovery_response
  chat_done :: bool
  chat_status :: bool
  chat_ops :: "chat_op list"

definition start_op :: "chat_op \<Rightarrow> chatter \<Rightarrow> chatter" where
  "start_op x c = c\<lparr>chat_ops := chat_ops c @ [x]\<rparr>"

definition NextWrite :: "chatter \<Rightarrow> chatter" where
  "NextWrite c = (if requests_iterator c < length (requests c)
     then (start_op (StartWrite (requests c ! requests_iterator c)) c)
       \<lparr>requests_iterator := requests_iterator c + 1\<rparr>
     else start_op StartWritesDone c)"

definition Chatter :: chatter where
  "Chatter = start_op StartCall (start_op StartRead (NextWrite
     \<lparr>requests = [chatter_request], requests_iterator = 0, response = empty_response,
      chat_done = False, chat_status = True, chat_ops = []\<rparr>))"

definition OnWriteDone :: "bool \<Rightarrow> chatter \<Rightarrow> chatter" where
  "OnWriteDone ok c = NextWrite c"

definition OnReadDone :: "bool \<Rightarrow> chatter \<Rightarrow> chatter" where
  "OnReadDone ok c = (if ok then start_op StartRead c else c)"

definition OnDone :: "bool \<Rightarrow> chatter \<Rightarrow> chatter" where
  "OnDone s c = c\<lparr>chat_status := s, chat_done := True\<rparr>"

text \<open>\<^verbatim>\<open>Await\<close>: the status, or \<open>None\<close> while the condition variable is still waited on.\<close>

definition Await :: "chatter \<Rightarrow> bool option" where
  "Await c = (if chat_done c then Some (chat_status c) else None)"

text \<open>
  \<^verbatim>\<open>AsyncAdsClient\<close>: it holds the stub its constructor makes for the channel, which is never null.
  \<^verbatim>\<open>do_something\<close> once its reactor is in state \<open>c\<close>: the lines it prints when \<^verbatim>\<open>Await\<close> returns, and
  \<open>None\<close> while it waits; \<^verbatim>\<open>main\<close> of \<^verbatim>\<open>asnyc_ads\<close> then returns 0.
\<close>

record async_ads_client =
  async_stub :: bool

definition AsyncAdsClient :: async_ads_client where
  "AsyncAdsClient = \<lparr>async_stub = True\<rparr>"

definition do_something :: "async_ads_client \<Rightarrow> chatter \<Rightarrow> fault + string list option" where
  "do_something client c = (if \<not> async_stub client then Inl NullStub
     else Inr (case Await c of
        None \<Rightarrow> None
      | Some ok \<Rightarrow> Some (if \<not> ok then [''RouteChat rpc failed.''] else [])))"

definition main_async :: "chatter \<Rightarrow> int option" where
  "main_async c = (case do_something AsyncAdsClient c of Inr (Some out) \<Rightarrow> Some 0 | _ \<Rightarrow> None)"

text \<open>
  The reactor with the completions gRPC has delivered: it delivers the completion of an
  operation that is outstanding, in any order, and \<^verbatim>\<open>OnDone\<close> once, when none is.
\<close>

record chat_world =
  chat :: chatter
  writes_completed :: nat
  reads_completed :: nat
  writes_done_completed :: nat

fun is_start_write :: "chat_op \<Rightarrow> bool" where
  "is_start_write (StartWrite r) = True"
| "is_start_write _ = False"

definition writes_out :: "chat_world \<Rightarrow> nat" where
  "writes_out w = length (filter is_start_write (chat_ops (chat w))) - writes_completed w"

definition reads_out :: "chat_world \<Rightarrow> nat" where
  "reads_out w = length (filter (\<lambda>x. x = StartRead) (chat_ops (chat w))) - reads_completed w"

definition writes_done_out :: "chat_world \<Rightarrow> nat" where
  "writes_done_out w = length (filter (\<lambda>x. x = StartWritesDone) (chat_ops (chat w))) - writes_done_completed w"

definition chat_start :: chat_world where
  "chat_start = \<lparr>chat = Chatter, writes_completed = 0, reads_completed = 0, writes_done_completed = 0\<rparr>"

inductive chat_step :: "chat_world \<Rightarrow> chat_world \<Rightarrow> bool" where
  sent_one: "0 < writes_out w \<Longrightarrow>
    chat_step w (w\<lparr>chat := OnWriteDone ok (chat w), writes_completed := Suc (writes_completed w)\<rparr>)"
| read: "0 < reads_out w \<Longrightarrow> chat_step w
    (w\<lparr>chat := OnReadDone True ((chat w)\<lparr>response := m\<rparr>), reads_completed := Suc (reads_completed w)\<rparr>)"
| read_end: "0 < reads_out w \<Longrightarrow>
    chat_step w (w\<lparr>chat := OnReadDone False (chat w), reads_completed := Suc (reads_completed w)\<rparr>)"
| writes_done: "0 < writes_done_out w \<Longrightarrow>
    chat_step w (w\<lparr>writes_done_completed := Suc (writes_done_completed w)\<rparr>)"
| finish: "writes_out w = 0 \<Longrightarrow> reads_out w = 0 \<Longrightarrow> writes_done_out w = 0 \<Longrightarrow> \<not> chat_done (chat w) \<Longrightarrow>
    chat_step w (w\<lparr>chat := OnDone s (chat w)\<rparr>)"

inductive_cases chat_stepE: "chat_step w w'"

inductive chat_reachable :: "chat_world \<Rightarrow> bool" where
  start: "chat_reachable chat_start"
| step: "chat_reachable w \<Longrightarrow> chat_step w w' \<Longrightarrow> chat_reachable w'"

text \<open>The invariant: one write, then the half-close, and one read at a time.\<close>

definition chat_inv :: "chat_world \<Rightarrow> bool" where
  "chat_inv w \<longleftrightarrow> requests (chat w) = [chatter_request] \<and> requests_iterator (chat w) = 1 \<and>
    filter is_start_write (chat_ops (chat w)) = [StartWrite chatter_request] \<and>
    length (filter (\<lambda>x. x = StartWritesDone) (chat_ops (chat w))) = writes_completed w \<and>
    writes_completed w \<le> 1 \<and> writes_done_completed w \<le> writes_completed w \<and>
    reads_completed w \<le> length (filter (\<lambda>x. x = StartRead) (chat_ops (chat w))) \<and>
    length (filter (\<lambda>x. x = StartRead) (chat_ops (chat w))) \<le> Suc (reads_completed w) \<and>
    (chat_done (chat w) \<longrightarrow> writes_out w = 0 \<and> reads_out w = 0 \<and> writes_done_out w = 0)"

lemmas chat_defs = chat_inv_def writes_out_def reads_out_def writes_done_out_def

lemma chat_inv_start: "chat_inv chat_start"
  by (simp add: chat_defs chat_start_def Chatter_def NextWrite_def start_op_def)

lemma chat_inv_step: "chat_step w w' \<Longrightarrow> chat_inv w \<Longrightarrow> chat_inv w'"
  by (erule chat_stepE)
    (auto simp: chat_defs OnWriteDone_def OnReadDone_def OnDone_def NextWrite_def start_op_def)

lemma chat_reachable_inv: "chat_reachable w \<Longrightarrow> chat_inv w"
  by (induction rule: chat_reachable.induct) (auto intro: chat_inv_start chat_inv_step)

section \<open>The two threads\<close>

text \<open>The request the writer's lambda builds.\<close>

definition thread_request :: discovery_request where
  "thread_request =
    (let r = empty_request\<lparr>req_version_info := req_version_info empty_request @ []\<rparr>;
         n = mutable_node r;
         n1 = n\<lparr>node_cluster := node_cluster n @ ''test-cluster''\<rparr>;
         n2 = n1\<lparr>node_id := node_id n1 @ ''test-id''\<rparr>
     in r\<lparr>req_node := Some n2,
          req_type_url := req_type_url r @ ''type.googleapis.com/envoy.config.cluster.v3.Cluster''\<rparr>)"

datatype writer_pc = WriterWrite | WriterHalfClose | WriterExit
datatype reader_pc = Reading | Joining | Ended

record 'w thread_state =
  writer :: writer_pc
  reader :: reader_pc
  call_status :: "bool option"
  tnet :: 'w
  tlog :: "io_event list"

definition ads_start :: "'w \<Rightarrow> 'w thread_state" where
  "ads_start w = \<lparr>writer = WriterWrite, reader = Reading, call_status = None, tnet = w, tlog = []\<rparr>"

text \<open>
  One call on the stream per step: the writer's \<^verbatim>\<open>Write\<close> and \<^verbatim>\<open>WritesDone\<close>; the reader's \<^verbatim>\<open>Read\<close> until
  it returns false, then \<^verbatim>\<open>join\<close>, which waits for the writer's exit, with \<^verbatim>\<open>Finish\<close>, whose status is
  kept. \<^verbatim>\<open>Read\<close> waits too, as long as nothing has arrived and the stream has not ended: \<open>waits\<close> says
  in which states of the transport. Meanwhile the server and the network change that state as
  \<open>arrive\<close> allows, until the stream has ended.
\<close>

inductive ads_step :: "'w sync_rpc \<Rightarrow> ('w \<Rightarrow> bool) \<Rightarrow> ('w \<Rightarrow> 'w \<Rightarrow> bool) \<Rightarrow>
    'w thread_state \<Rightarrow> 'w thread_state \<Rightarrow> bool" for g waits arrive where
  sent_one: "writer s = WriterWrite \<Longrightarrow> ads_step g waits arrive s (s\<lparr>writer := WriterHalfClose,
    tnet := snd (rpc_write g thread_request (tnet s)), tlog := tlog s @ [Wrote thread_request]\<rparr>)"
| half_close: "writer s = WriterHalfClose \<Longrightarrow> ads_step g waits arrive s (s\<lparr>writer := WriterExit,
    tnet := snd (rpc_writes_done g (tnet s)), tlog := tlog s @ [DoneWriting]\<rparr>)"
| read: "reader s = Reading \<Longrightarrow> \<not> waits (tnet s) \<Longrightarrow> rpc_read g (tnet s) = (Some m, w) \<Longrightarrow>
    ads_step g waits arrive s (s\<lparr>tnet := w, tlog := tlog s @ [ReadMsg m]\<rparr>)"
| read_end: "reader s = Reading \<Longrightarrow> \<not> waits (tnet s) \<Longrightarrow> rpc_read g (tnet s) = (None, w) \<Longrightarrow>
    ads_step g waits arrive s (s\<lparr>reader := Joining, tnet := w, tlog := tlog s @ [ReadEnd]\<rparr>)"
| join: "reader s = Joining \<Longrightarrow> writer s = WriterExit \<Longrightarrow> rpc_finish g (tnet s) = (ok, w) \<Longrightarrow>
    ads_step g waits arrive s
      (s\<lparr>reader := Ended, call_status := Some ok, tnet := w, tlog := tlog s @ [Finished ok]\<rparr>)"
| arrival: "reader s = Reading \<Longrightarrow> arrive (tnet s) w \<Longrightarrow> ads_step g waits arrive s (s\<lparr>tnet := w\<rparr>)"

inductive_cases ads_stepE: "ads_step g waits arrive s s'"

text \<open>
  What \<^verbatim>\<open>AggregatedDiscoveryService\<close> prints once \<^verbatim>\<open>Finish\<close> has returned, and \<^verbatim>\<open>main\<close> of \<^verbatim>\<open>ads\<close>, which returns 0.
\<close>

definition threads_report :: "'w thread_state \<Rightarrow> string list option" where
  "threads_report s = map_option (\<lambda>ok. if \<not> ok then [''rpc failed''] else []) (call_status s)"

definition main_threads :: "'w thread_state \<Rightarrow> int option" where
  "main_threads s = (case threads_report s of None \<Rightarrow> None | Some out \<Rightarrow> Some 0)"

fun writer_log :: "writer_pc \<Rightarrow> io_event list" where
  "writer_log WriterWrite = []"
| "writer_log WriterHalfClose = [Wrote thread_request]"
| "writer_log WriterExit = [Wrote thread_request, DoneWriting]"

fun is_writer_event :: "io_event \<Rightarrow> bool" where
  "is_writer_event (Wrote r) = True"
| "is_writer_event DoneWriting = True"
| "is_writer_event _ = False"

text \<open>The log is an interleaving of what each thread has done by its program counter.\<close>

fun reader_log :: "reader_pc \<Rightarrow> bool option \<Rightarrow> io_event list" where
  "reader_log Reading status = []"
| "reader_log Joining status = [ReadEnd]"
| "reader_log Ended status = [ReadEnd, Finished (status = Some True)]"

definition ads_inv :: "'w thread_state \<Rightarrow> bool" where
  "ads_inv s \<longleftrightarrow> filter is_writer_event (tlog s) = writer_log (writer s) \<and>
    (\<exists>ms. filter (\<lambda>e. \<not> is_writer_event e) (tlog s) = map ReadMsg ms @ reader_log (reader s) (call_status s)) \<and>
    (if reader s = Ended
     then writer s = WriterExit \<and> (\<exists>ok. call_status s = Some ok \<and> last (tlog s) = Finished ok)
     else call_status s = None)"

lemma ads_inv_start: "ads_inv (ads_start w)"
  by (simp add: ads_inv_def ads_start_def)

lemma ads_inv_step:
  assumes "ads_step g waits arrive s s'" and "ads_inv s"
  shows "ads_inv s'"
proof -
  obtain ms where ms: "filter (\<lambda>e. \<not> is_writer_event e) (tlog s) =
      map ReadMsg ms @ reader_log (reader s) (call_status s)"
    and w: "filter is_writer_event (tlog s) = writer_log (writer s)"
    and e: "reader s = Ended \<Longrightarrow> writer s = WriterExit" "reader s \<noteq> Ended \<Longrightarrow> call_status s = None"
    using assms(2) by (auto simp: ads_inv_def split: if_splits)
  from assms(1) show ?thesis
  proof cases
    case (read m w)
    then show ?thesis using ms w e by (auto simp: ads_inv_def intro!: exI [of _ "ms @ [m]"])
  next
    case (join ok w)
    then show ?thesis using ms w by (cases ok) (auto simp: ads_inv_def)
  qed (use ms w e in \<open>auto simp: ads_inv_def split: if_splits\<close>)
qed

fun writer_rank :: "writer_pc \<Rightarrow> nat" where
  "writer_rank WriterWrite = 2" | "writer_rank WriterHalfClose = 1" | "writer_rank WriterExit = 0"

fun reader_rank :: "reader_pc \<Rightarrow> nat" where
  "reader_rank Reading = 2" | "reader_rank Joining = 1" | "reader_rank Ended = 0"

definition ads_rank :: "('w \<Rightarrow> nat) \<Rightarrow> 'w thread_state \<Rightarrow> nat" where
  "ads_rank m s = (if reader s = Reading then m (tnet s) else 0) + writer_rank (writer s) + reader_rank (reader s)"

definition half_close_keeps :: "'w sync_rpc \<Rightarrow> ('w \<Rightarrow> nat) \<Rightarrow> bool" where
  "half_close_keeps g m \<longleftrightarrow> (\<forall>w. m (snd (rpc_writes_done g w)) \<le> m w)"

text \<open>
  The server does finitely much: what arrives lowers the measure of what is to come, like a
  message that is read.
\<close>

definition finite_arrivals :: "('w \<Rightarrow> 'w \<Rightarrow> bool) \<Rightarrow> ('w \<Rightarrow> nat) \<Rightarrow> bool" where
  "finite_arrivals arrive m \<longleftrightarrow> (\<forall>w w'. arrive w w' \<longrightarrow> m w' < m w)"

text \<open>
  The server does not leave a client waiting that has half-closed: after \<^verbatim>\<open>WritesDone\<close> (the states
  \<open>closed\<close>, which neither reads nor arrivals leave) a \<^verbatim>\<open>Read\<close> that waits has something under way, a
  message or the end of the stream. Of a client that has not, nothing is assumed: the server
  may wait for it for ever.
\<close>

definition answers_half_close :: "'w sync_rpc \<Rightarrow> ('w \<Rightarrow> bool) \<Rightarrow> ('w \<Rightarrow> 'w \<Rightarrow> bool) \<Rightarrow> ('w \<Rightarrow> bool) \<Rightarrow> bool" where
  "answers_half_close g waits arrive closed \<longleftrightarrow>
    (\<forall>w. closed (snd (rpc_writes_done g w))) \<and>
    (\<forall>w. closed w \<longrightarrow> closed (snd (rpc_read g w))) \<and>
    (\<forall>w w'. closed w \<longrightarrow> arrive w w' \<longrightarrow> closed w') \<and>
    (\<forall>w. closed w \<longrightarrow> waits w \<longrightarrow> (\<exists>w'. arrive w w'))"

lemma ads_step_rank:
  assumes "finite_stream g m" and "half_close_keeps g m" and "finite_arrivals arrive m"
    and "ads_step g waits arrive s s'"
  shows "ads_rank m s' < ads_rank m s"
  using assms(4)
proof cases
  case sent_one
  then show ?thesis
    using finite_stream_write [OF assms(1), of thread_request "tnet s"] by (simp add: ads_rank_def)
next
  case half_close
  then show ?thesis using assms(2) by (simp add: ads_rank_def half_close_keeps_def less_Suc_eq_le)
next
  case (read r w)
  then show ?thesis using finite_stream_read [OF assms(1), of "tnet s" r w] by (simp add: ads_rank_def)
next
  case (arrival w)
  then show ?thesis using assms(3) by (simp add: ads_rank_def finite_arrivals_def)
qed (simp_all add: ads_rank_def)

lemma ads_runs_bounded:
  assumes "finite_stream g m" and "half_close_keeps g m" and "finite_arrivals arrive m"
  shows "(ads_step g waits arrive ^^ n) s s' \<Longrightarrow> n + ads_rank m s' \<le> ads_rank m s"
proof (induction n arbitrary: s')
  case (Suc n)
  then obtain s1 where "(ads_step g waits arrive ^^ n) s s1" "ads_step g waits arrive s1 s'" by auto
  with Suc.IH [of s1] ads_step_rank [OF assms, of waits s1 s'] show ?case by simp
qed simp

lemma ads_reach_inv: "(ads_step g waits arrive)\<^sup>*\<^sup>* (ads_start w) s \<Longrightarrow> ads_inv s"
  by (induction rule: rtranclp_induct) (auto intro: ads_inv_start ads_inv_step)

text \<open>Once the writer is through, the stream is half-closed, as long as it is read.\<close>

lemma ads_half_closed:
  assumes "answers_half_close g waits arrive closed" and "(ads_step g waits arrive)\<^sup>*\<^sup>* (ads_start w) s"
  shows "writer s = WriterExit \<Longrightarrow> reader s = Reading \<Longrightarrow> closed (tnet s)"
  using assms(2)
proof (induction rule: rtranclp_induct)
  case base
  then show ?case by (simp add: ads_start_def)
next
  case (step s1 s2)
  have got: "closed (tnet s1) \<Longrightarrow> rpc_read g (tnet s1) = (r, w') \<Longrightarrow> closed w'" for r w'
    using assms(1) unfolding answers_half_close_def by (metis snd_conv)
  have half: "closed (snd (rpc_writes_done g w'))" and arr: "closed w' \<Longrightarrow> arrive w' w'' \<Longrightarrow> closed w''" for w' w''
    using assms(1) unfolding answers_half_close_def by blast+
  from step(2) show ?case
  proof cases
    case sent_one
    with step.prems show ?thesis by simp
  next
    case half_close
    with half show ?thesis by simp
  next
    case (read m w')
    with step.prems step.IH got show ?thesis by simp
  next
    case (arrival w')
    with step.prems step.IH arr show ?thesis by simp
  qed (use step.prems in simp_all)
qed

lemma ads_progress:
  assumes "answers_half_close g waits arrive closed" and "(ads_step g waits arrive)\<^sup>*\<^sup>* (ads_start w) s"
    and "reader s \<noteq> Ended"
  shows "\<exists>s'. ads_step g waits arrive s s'"
proof (cases "writer s = WriterExit")
  case True
  obtain r w where r: "rpc_read g (tnet s) = (r, w)" by force
  obtain ok w' where f: "rpc_finish g (tnet s) = (ok, w')" by force
  show ?thesis
  proof (cases "reader s")
    case Reading
    have c: "closed (tnet s)" by (rule ads_half_closed [OF assms(1,2) True Reading])
    show ?thesis
    proof (cases "waits (tnet s)")
      case True
      with c assms(1) obtain w' where "arrive (tnet s) w'" unfolding answers_half_close_def by blast
      with Reading show ?thesis by (blast intro: ads_step.arrival)
    next
      case False
      with Reading r show ?thesis by (cases r) (auto intro: ads_step.read ads_step.read_end)
    qed
  next
    case Joining
    from ads_step.join [OF this True f] show ?thesis by blast
  qed (use assms(3) in simp)
next
  case False
  then show ?thesis
    using ads_step.sent_one [of s g waits arrive] ads_step.half_close [of s g waits arrive]
    by (cases "writer s") blast+
qed

lemma ads_finishes:
  assumes "finite_stream g m" and "half_close_keeps g m" and "finite_arrivals arrive m"
    and "answers_half_close g waits arrive closed" and "(ads_step g waits arrive)\<^sup>*\<^sup>* (ads_start w) s"
  shows "\<exists>s'. (ads_step g waits arrive)\<^sup>*\<^sup>* s s' \<and> reader s' = Ended"
  using assms(5)
proof (induction "ads_rank m s" arbitrary: s rule: less_induct)
  case less
  show ?case
  proof (cases "reader s = Ended")
    case False
    from ads_progress [OF assms(4) less.prems this] obtain s1 where s1: "ads_step g waits arrive s s1" by blast
    from less.hyps [OF ads_step_rank [OF assms(1-3) s1] rtranclp.rtrancl_into_rtrancl [OF less.prems s1]] s1
    show ?thesis by (meson converse_rtranclp_into_rtranclp)
  qed blast
qed

section \<open>Properties\<close>

text \<open>
  C29. In every interleaving of completions the reactor keeps to the rules of a bidirectional
  call: one write and one read outstanding at most, the half-close started once and only
  after the write has completed, and nothing but the initial request is ever written, so no
  response is acknowledged.
\<close>

theorem reactor_safe:
  assumes "chat_reachable w"
  shows "filter is_start_write (chat_ops (chat w)) = [StartWrite chatter_request] \<and>
    writes_out w \<le> 1 \<and> reads_out w \<le> 1 \<and>
    length (filter (\<lambda>x. x = StartWritesDone) (chat_ops (chat w))) = (if writes_out w = 0 then 1 else 0)"
  using chat_reachable_inv [OF assms] by (auto simp: chat_defs)

lemma chat_after_write:
  "chat_reachable (chat_start\<lparr>chat := OnWriteDone True Chatter, writes_completed := 1\<rparr>)"
proof -
  have "0 < writes_out chat_start"
    by (simp add: writes_out_def chat_start_def Chatter_def NextWrite_def start_op_def)
  from chat_reachable.step [OF chat_reachable.start chat_step.sent_one [OF this, of True]] show ?thesis
    by (simp add: chat_start_def)
qed

theorem reactor_safe_witness:
  "filter is_start_write (chat_ops (OnWriteDone True Chatter)) = [StartWrite chatter_request] \<and>
   length (filter (\<lambda>x. x = StartWritesDone) (chat_ops (OnWriteDone True Chatter))) = 1"
  using reactor_safe [OF chat_after_write]
  by (simp add: writes_out_def split: if_splits)

text \<open>
  With \<^verbatim>\<open>OnDone\<close> as one step: \<^verbatim>\<open>Await\<close> returns only when no operation is outstanding, the reactor
  then takes no further step, and while it has not returned some completion is due.
\<close>

lemma await_outcome:
  assumes "chat_reachable w"
  shows "Await (chat w) = None \<longleftrightarrow> (\<exists>w'. chat_step w w')"
    and "Await (chat w) \<noteq> None \<Longrightarrow> writes_out w = 0 \<and> reads_out w = 0 \<and> writes_done_out w = 0"
    and "Await (chat w) \<noteq> None \<Longrightarrow> main_async (chat w) = Some 0"
    and "do_something AsyncAdsClient (chat w) = Inr (Some [''RouteChat rpc failed.'']) \<longleftrightarrow> Await (chat w) = Some False"
proof -
  have inv: "chat_inv w" by (rule chat_reachable_inv [OF assms])
  have "\<exists>w'. chat_step w w'" if "\<not> chat_done (chat w)"
    using that chat_step.sent_one [of w True] chat_step.read_end [of w] chat_step.writes_done [of w]
      chat_step.finish [of w] by (cases "writes_out w = 0 \<and> reads_out w = 0 \<and> writes_done_out w = 0") auto
  moreover have "\<not> chat_step w w'" if "chat_done (chat w)" for w'
    using that inv by (auto simp: chat_inv_def elim: chat_stepE)
  ultimately show "Await (chat w) = None \<longleftrightarrow> (\<exists>w'. chat_step w w')"
    by (auto simp: Await_def)
  show "Await (chat w) \<noteq> None \<Longrightarrow> writes_out w = 0 \<and> reads_out w = 0 \<and> writes_done_out w = 0"
    using inv by (simp add: Await_def chat_inv_def split: if_splits)
qed (auto simp: Await_def do_something_def main_async_def AsyncAdsClient_def split: if_splits)

text \<open>
  C31. The threaded client: in every interleaving, with whatever waits and arrivals, the
  writer's calls come in the order write, half-close, the reader's in the order reads, end of
  stream, finish, and when the call has finished the log holds all of them, with the finish
  last, after the half-close. The program then returns 0 and has printed a line exactly when
  the finish reported a failure.
\<close>

theorem threads_ordered:
  assumes "(ads_step g waits arrive)\<^sup>*\<^sup>* (ads_start w) s" and "reader s = Ended"
  shows "filter is_writer_event (tlog s) = [Wrote thread_request, DoneWriting] \<and>
    (\<exists>ms ok. filter (\<lambda>e. \<not> is_writer_event e) (tlog s) = map ReadMsg ms @ [ReadEnd, Finished ok] \<and>
      last (tlog s) = Finished ok \<and> threads_report s = Some (if ok then [] else [''rpc failed''])) \<and>
    main_threads s = Some 0"
proof -
  have inv: "ads_inv s" by (rule ads_reach_inv [OF assms(1)])
  then obtain ms ok where "filter (\<lambda>e. \<not> is_writer_event e) (tlog s) = map ReadMsg ms @ [ReadEnd, Finished ok]"
    "last (tlog s) = Finished ok" "writer s = WriterExit" "call_status s = Some ok"
    using assms(2) by (auto simp: ads_inv_def)
  with inv show ?thesis
    by (intro conjI exI [of _ ms] exI [of _ ok]) (auto simp: ads_inv_def threads_report_def main_threads_def)
qed

text \<open>
  A server for the instances: it sends its messages and ends the stream only once the client
  has half-closed; until then, and until a message has arrived, \<^verbatim>\<open>Read\<close> waits. Its state is the
  half-close, what has arrived, and what is still to be sent (\<open>None\<close>: the end has arrived).
\<close>

type_synonym patient = "bool \<times> discovery_response list \<times> discovery_response list option"

definition patient_rpc :: "patient sync_rpc" where
  "patient_rpc = \<lparr>rpc_open = (\<lambda>w. (True, w)), rpc_write = (\<lambda>q w. (True, w)),
     rpc_read = (\<lambda>(c, now, later). case now of [] \<Rightarrow> (None, (c, now, later)) | r # rs \<Rightarrow> (Some r, (c, rs, later))),
     rpc_writes_done = (\<lambda>(c, now, later). (True, (True, now, later))), rpc_finish = (\<lambda>w. (True, w))\<rparr>"

fun patient_waits :: "patient \<Rightarrow> bool" where
  "patient_waits (c, now, later) \<longleftrightarrow> now = [] \<and> later \<noteq> None"

fun patient_next :: "patient \<Rightarrow> patient option" where
  "patient_next (True, now, Some []) = Some (True, now, None)"
| "patient_next (True, now, Some (r # rs)) = Some (True, now @ [r], Some rs)"
| "patient_next _ = None"

abbreviation patient_arrive :: "patient \<Rightarrow> patient \<Rightarrow> bool" where
  "patient_arrive w w' \<equiv> patient_next w = Some w'"

fun patient_rest :: "patient \<Rightarrow> nat" where
  "patient_rest (c, now, later) = length now + (case later of None \<Rightarrow> 0 | Some rs \<Rightarrow> 2 * length rs + 1)"

lemma patient_next_rest: "patient_next w = Some w' \<Longrightarrow> patient_rest w' < patient_rest w \<and> fst w'"
  by (cases w rule: patient_next.cases) auto

lemma patient_next_waits: "fst w \<Longrightarrow> patient_waits w \<Longrightarrow> \<exists>w'. patient_next w = Some w'"
  by (cases w rule: patient_next.cases) auto

lemma patient_server:
  "finite_stream patient_rpc patient_rest" "half_close_keeps patient_rpc patient_rest"
  "finite_arrivals patient_arrive patient_rest"
  "answers_half_close patient_rpc patient_waits patient_arrive fst"
  using patient_next_rest patient_next_waits
  by (auto simp: finite_stream_def half_close_keeps_def finite_arrivals_def answers_half_close_def patient_rpc_def
      split: list.splits)

theorem threads_ordered_witness:
  "\<exists>s. (ads_step patient_rpc patient_waits patient_arrive)\<^sup>*\<^sup>* (ads_start (False, [], Some [empty_response])) s \<and>
    reader s = Ended \<and> filter is_writer_event (tlog s) = [Wrote thread_request, DoneWriting] \<and>
    (\<exists>ms ok. filter (\<lambda>e. \<not> is_writer_event e) (tlog s) = map ReadMsg ms @ [ReadEnd, Finished ok])"
proof -
  obtain s where s: "(ads_step patient_rpc patient_waits patient_arrive)\<^sup>*\<^sup>* (ads_start (False, [], Some [empty_response])) s"
    "reader s = Ended"
    using ads_finishes [OF patient_server rtranclp.rtrancl_refl] by blast
  from threads_ordered [OF s] s show ?thesis by blast
qed

text \<open>
  C32. No deadlock, and termination: against a server that does finitely much and does not
  leave waiting a client that has half-closed, a run has at most as many steps as there is
  to come and four; the only reachable states without a step are those where the call has
  finished, though \<^verbatim>\<open>Read\<close> waits for the server and \<^verbatim>\<open>join\<close> for the writer; and from every reachable
  state the call can finish. It is the half-close of the writer that keeps the reader from
  waiting for ever.
\<close>

theorem threads_terminate:
  assumes "finite_stream g m" and "half_close_keeps g m" and "finite_arrivals arrive m"
    and "answers_half_close g waits arrive closed"
  shows "(\<forall>n s. (ads_step g waits arrive ^^ n) (ads_start w) s \<longrightarrow> n \<le> m w + 4) \<and>
    (\<forall>s. (ads_step g waits arrive)\<^sup>*\<^sup>* (ads_start w) s \<longrightarrow>
      (reader s = Ended \<longleftrightarrow> (\<nexists>s'. ads_step g waits arrive s s')) \<and>
      (\<exists>s'. (ads_step g waits arrive)\<^sup>*\<^sup>* s s' \<and> reader s' = Ended))"
proof (intro conjI allI impI)
  fix n s
  assume "(ads_step g waits arrive ^^ n) (ads_start w) s"
  from ads_runs_bounded [OF assms(1-3) this] show "n \<le> m w + 4" by (simp add: ads_rank_def ads_start_def)
next
  fix s
  assume r: "(ads_step g waits arrive)\<^sup>*\<^sup>* (ads_start w) s"
  then have "ads_inv s" by (rule ads_reach_inv)
  then show "reader s = Ended \<longleftrightarrow> (\<nexists>s'. ads_step g waits arrive s s')"
    using ads_progress [OF assms(4) r] by (auto simp: ads_inv_def elim: ads_stepE)
  show "\<exists>s'. (ads_step g waits arrive)\<^sup>*\<^sup>* s s' \<and> reader s' = Ended" by (rule ads_finishes [OF assms r])
qed

theorem threads_terminate_witness:
  "(\<forall>s. \<not> (ads_step patient_rpc patient_waits patient_arrive ^^ 8) (ads_start (False, [], Some [empty_response])) s) \<and>
   patient_waits (False, [], Some [empty_response]) \<and>
   (\<exists>s. (ads_step patient_rpc patient_waits patient_arrive)\<^sup>*\<^sup>* (ads_start (False, [], Some [empty_response])) s \<and>
     reader s = Ended)"
proof -
  note t = threads_terminate [OF patient_server, of "(False, [], Some [empty_response])"]
  have "\<not> (ads_step patient_rpc patient_waits patient_arrive ^^ 8) (ads_start (False, [], Some [empty_response])) s" for s
    using conjunct1 [OF t] by fastforce
  moreover have "\<exists>s. (ads_step patient_rpc patient_waits patient_arrive)\<^sup>*\<^sup>* (ads_start (False, [], Some [empty_response])) s \<and>
      reader s = Ended"
    using conjunct2 [OF t] by blast
  ultimately show ?thesis by simp
qed

end
