(* ===== verification/Reactor_Sync.thy ===== *)
theory Reactor_Sync
  imports Async_Clients
begin

text \<open>
  The synchronisation inside the callback reactor of \<^verbatim>\<open>asnyc_ads/AsyncAdsClient.cpp\<close>: the main thread
  in \<^verbatim>\<open>Await\<close> and gRPC's callback thread in \<^verbatim>\<open>OnDone\<close> share the mutex \<^verbatim>\<open>mu_\<close>, the condition variable
  \<^verbatim>\<open>cv_\<close> and the fields \<^verbatim>\<open>status_\<close> and \<^verbatim>\<open>done_\<close>. Each statement of the two is one step here, and the
  step relation of \<^verbatim>\<open>Async_Clients\<close>, where \<^verbatim>\<open>OnDone\<close> is one step, is what this one refines.
\<close>

section \<open>The two threads\<close>

datatype await_pc = AwaitLock | AwaitTest | AwaitSleep | AwaitRelock | AwaitUnlock | AwaitReturned
datatype done_pc = DoneIdle | DoneLock | DoneStatus | DoneFlag | DoneNotify | DoneUnlock | DoneReturned
datatype mutex_owner = MainThread | CallbackThread

text \<open>\<open>done_arg\<close> is the argument of \<^verbatim>\<open>OnDone\<close>, \<open>awaited\<close> the value \<^verbatim>\<open>Await\<close> has taken to return.\<close>

record sync_world =
  world :: chat_world
  await_at :: await_pc
  done_at :: done_pc
  done_arg :: bool
  mu :: "mutex_owner option"
  awaited :: "bool option"

definition sync_start :: sync_world where
  "sync_start = \<lparr>world = chat_start, await_at = AwaitLock, done_at = DoneIdle, done_arg = True,
     mu = None, awaited = None\<rparr>"

definition modifyChat :: "(chatter \<Rightarrow> chatter) \<Rightarrow> sync_world \<Rightarrow> sync_world" where
  "modifyChat f s = s\<lparr>world := (world s)\<lparr>chat := f (chat (world s))\<rparr>\<rparr>"

text \<open>
  \<^verbatim>\<open>Await\<close>: lock; test the predicate of \<^verbatim>\<open>cv_.wait\<close>, holding the lock; sleep with the lock released
  while it is false; lock again after a wake-up and test again; take \<^verbatim>\<open>status_\<close>; unlock. \<open>None\<close>
  where the thread is blocked. A locked mutex blocks; the sleeper is woken by others.
\<close>

definition Await_step :: "sync_world \<Rightarrow> sync_world option" where
  "Await_step s = (case await_at s of
      AwaitLock \<Rightarrow> if mu s = None then Some (s\<lparr>mu := Some MainThread, await_at := AwaitTest\<rparr>) else None
    | AwaitTest \<Rightarrow> if chat_done (chat (world s))
        then Some (s\<lparr>awaited := Some (chat_status (chat (world s))), await_at := AwaitUnlock\<rparr>)
        else Some (s\<lparr>mu := None, await_at := AwaitSleep\<rparr>)
    | AwaitSleep \<Rightarrow> None
    | AwaitRelock \<Rightarrow> if mu s = None then Some (s\<lparr>mu := Some MainThread, await_at := AwaitTest\<rparr>) else None
    | AwaitUnlock \<Rightarrow> Some (s\<lparr>mu := None, await_at := AwaitReturned\<rparr>)
    | AwaitReturned \<Rightarrow> None)"

text \<open>\<^verbatim>\<open>OnDone\<close>: lock, \<^verbatim>\<open>status_ = s\<close>, \<^verbatim>\<open>done_ = true\<close>, \<^verbatim>\<open>notify_one\<close> with the lock held, unlock at the end of the scope.\<close>

definition OnDone_step :: "sync_world \<Rightarrow> sync_world option" where
  "OnDone_step s = (case done_at s of
      DoneIdle \<Rightarrow> None
    | DoneLock \<Rightarrow> if mu s = None then Some (s\<lparr>mu := Some CallbackThread, done_at := DoneStatus\<rparr>) else None
    | DoneStatus \<Rightarrow> Some (modifyChat (\<lambda>c. c\<lparr>chat_status := done_arg s\<rparr>) s\<lparr>done_at := DoneFlag\<rparr>)
    | DoneFlag \<Rightarrow> Some (modifyChat (\<lambda>c. c\<lparr>chat_done := True\<rparr>) s\<lparr>done_at := DoneNotify\<rparr>)
    | DoneNotify \<Rightarrow> Some (s\<lparr>await_at := if await_at s = AwaitSleep then AwaitRelock else await_at s,
        done_at := DoneUnlock\<rparr>)
    | DoneUnlock \<Rightarrow> Some (s\<lparr>mu := None, done_at := DoneReturned\<rparr>)
    | DoneReturned \<Rightarrow> None)"

text \<open>
  A step of the program: a completion of an outstanding operation, gRPC's call of \<^verbatim>\<open>OnDone\<close> once
  nothing is outstanding, or a step of one of the threads. A condition variable may also wake
  its sleeper without a notification; such a wake-up is kept apart, as nothing may depend on it.
\<close>

inductive sync_step :: "sync_world \<Rightarrow> sync_world \<Rightarrow> bool" where
  completion: "done_at s = DoneIdle \<Longrightarrow> chat_step (world s) w \<Longrightarrow> \<not> chat_done (chat w) \<Longrightarrow>
    sync_step s (s\<lparr>world := w\<rparr>)"
| call_done: "done_at s = DoneIdle \<Longrightarrow>
    writes_out (world s) = 0 \<Longrightarrow> reads_out (world s) = 0 \<Longrightarrow> writes_done_out (world s) = 0 \<Longrightarrow>
    sync_step s (s\<lparr>done_at := DoneLock, done_arg := ok\<rparr>)"
| callback: "OnDone_step s = Some s' \<Longrightarrow> sync_step s s'"
| main_thread: "Await_step s = Some s' \<Longrightarrow> sync_step s s'"

inductive_cases sync_stepE: "sync_step s s'"

inductive sync_reachable :: "sync_world \<Rightarrow> bool" where
  start: "sync_reachable sync_start"
| step: "sync_reachable s \<Longrightarrow> sync_step s s' \<Longrightarrow> sync_reachable s'"
| spurious: "sync_reachable s \<Longrightarrow> await_at s = AwaitSleep \<Longrightarrow> sync_reachable (s\<lparr>await_at := AwaitRelock\<rparr>)"

section \<open>The invariant\<close>

definition locked_by_callback :: "done_pc \<Rightarrow> bool" where
  "locked_by_callback p \<longleftrightarrow> p \<in> {DoneStatus, DoneFlag, DoneNotify, DoneUnlock}"

definition locked_by_main :: "await_pc \<Rightarrow> bool" where
  "locked_by_main p \<longleftrightarrow> p \<in> {AwaitTest, AwaitUnlock}"

definition sync_inv :: "sync_world \<Rightarrow> bool" where
  "sync_inv s \<longleftrightarrow>
    (mu s = Some MainThread \<longleftrightarrow> locked_by_main (await_at s)) \<and>
    (mu s = Some CallbackThread \<longleftrightarrow> locked_by_callback (done_at s)) \<and>
    (chat_done (chat (world s)) \<longleftrightarrow> done_at s \<in> {DoneNotify, DoneUnlock, DoneReturned}) \<and>
    chat_status (chat (world s)) = (done_at s \<in> {DoneIdle, DoneLock, DoneStatus} \<or> done_arg s) \<and>
    (await_at s = AwaitSleep \<longrightarrow> done_at s \<notin> {DoneUnlock, DoneReturned}) \<and>
    awaited s = (if await_at s \<in> {AwaitUnlock, AwaitReturned} then Some (done_arg s) else None) \<and>
    (await_at s \<in> {AwaitUnlock, AwaitReturned} \<longrightarrow> done_at s = DoneReturned) \<and>
    (done_at s \<noteq> DoneIdle \<longrightarrow>
      writes_out (world s) = 0 \<and> reads_out (world s) = 0 \<and> writes_done_out (world s) = 0)"

lemmas sync_defs = sync_inv_def locked_by_main_def locked_by_callback_def

lemma modifyChat_frame [simp]:
  "chat (world (modifyChat f s)) = f (chat (world s))" "await_at (modifyChat f s) = await_at s"
  "done_at (modifyChat f s) = done_at s" "done_arg (modifyChat f s) = done_arg s"
  "mu (modifyChat f s) = mu s" "awaited (modifyChat f s) = awaited s"
  by (simp_all add: modifyChat_def)

lemma outstanding_modifyChat [simp]:
  assumes "chat_ops (f (chat (world s))) = chat_ops (chat (world s))"
  shows "writes_out (world (modifyChat f s)) = writes_out (world s)"
    "reads_out (world (modifyChat f s)) = reads_out (world s)"
    "writes_done_out (world (modifyChat f s)) = writes_done_out (world s)"
  using assms by (simp_all add: modifyChat_def writes_out_def reads_out_def writes_done_out_def)

lemma sync_inv_start: "sync_inv sync_start"
  by (simp add: sync_defs sync_start_def chat_start_def Chatter_def NextWrite_def start_op_def)

text \<open>A completion touches neither \<^verbatim>\<open>status_\<close> nor \<^verbatim>\<open>done_\<close>.\<close>

lemma chat_step_flags:
  "chat_step w w' \<Longrightarrow> \<not> chat_done (chat w') \<Longrightarrow>
   \<not> chat_done (chat w) \<and> chat_status (chat w') = chat_status (chat w)"
  by (erule chat_stepE) (auto simp: OnWriteDone_def OnReadDone_def OnDone_def NextWrite_def start_op_def
      split: if_splits)

lemma Await_stepE:
  assumes "Await_step s = Some s'"
  obtains
    (lock) "await_at s = AwaitLock \<or> await_at s = AwaitRelock" and "mu s = None"
      and "s' = s\<lparr>mu := Some MainThread, await_at := AwaitTest\<rparr>"
  | (take) "await_at s = AwaitTest" and "chat_done (chat (world s))"
      and "s' = s\<lparr>awaited := Some (chat_status (chat (world s))), await_at := AwaitUnlock\<rparr>"
  | (sleep) "await_at s = AwaitTest" and "\<not> chat_done (chat (world s))"
      and "s' = s\<lparr>mu := None, await_at := AwaitSleep\<rparr>"
  | (unlock) "await_at s = AwaitUnlock" and "s' = s\<lparr>mu := None, await_at := AwaitReturned\<rparr>"
  using assms by (cases "await_at s") (auto simp: Await_step_def split: if_splits)

lemma OnDone_stepE:
  assumes "OnDone_step s = Some s'"
  obtains
    (lock) "done_at s = DoneLock" and "mu s = None"
      and "s' = s\<lparr>mu := Some CallbackThread, done_at := DoneStatus\<rparr>"
  | (status) "done_at s = DoneStatus"
      and "s' = modifyChat (\<lambda>c. c\<lparr>chat_status := done_arg s\<rparr>) s\<lparr>done_at := DoneFlag\<rparr>"
  | (flag) "done_at s = DoneFlag"
      and "s' = modifyChat (\<lambda>c. c\<lparr>chat_done := True\<rparr>) s\<lparr>done_at := DoneNotify\<rparr>"
  | (notify) "done_at s = DoneNotify"
      and "s' = s\<lparr>await_at := if await_at s = AwaitSleep then AwaitRelock else await_at s,
        done_at := DoneUnlock\<rparr>"
  | (unlock) "done_at s = DoneUnlock" and "s' = s\<lparr>mu := None, done_at := DoneReturned\<rparr>"
  using assms by (cases "done_at s") (auto simp: OnDone_step_def split: if_splits)

lemma sync_inv_main: "Await_step s = Some s' \<Longrightarrow> sync_inv s \<Longrightarrow> sync_inv s'"
  by (erule Await_stepE; cases "done_at s"; simp add: sync_defs) auto

lemma sync_inv_callback: "OnDone_step s = Some s' \<Longrightarrow> sync_inv s \<Longrightarrow> sync_inv s'"
  by (erule OnDone_stepE; cases "await_at s"; simp add: sync_defs) auto

lemma sync_inv_step: "sync_step s s' \<Longrightarrow> sync_inv s \<Longrightarrow> sync_inv s'"
proof (erule sync_stepE)
  fix w
  assume "sync_inv s" "s' = s\<lparr>world := w\<rparr>" "done_at s = DoneIdle" "chat_step (world s) w" "\<not> chat_done (chat w)"
  then show "sync_inv s'" using chat_step_flags [of "world s" w] by (simp add: sync_defs)
next
  fix ok
  assume "sync_inv s" "s' = s\<lparr>done_at := DoneLock, done_arg := ok\<rparr>" "done_at s = DoneIdle"
    "writes_out (world s) = 0" "reads_out (world s) = 0" "writes_done_out (world s) = 0"
  then show "sync_inv s'" by (simp add: sync_defs)
qed (auto intro: sync_inv_main sync_inv_callback)

section \<open>Refinement\<close>

text \<open>
  The reactor the coarse relation sees: \<^verbatim>\<open>status_\<close> counts from the moment \<^verbatim>\<open>done_\<close> is set, both
  being written under the lock.
\<close>

definition coarse :: "sync_world \<Rightarrow> chat_world" where
  "coarse s = (if chat_done (chat (world s)) then world s
     else (world s)\<lparr>chat := (chat (world s))\<lparr>chat_status := True\<rparr>\<rparr>)"

lemma coarse_id: "chat_status (chat (world s)) \<Longrightarrow> coarse s = world s"
  by (cases "world s"; cases "chat (world s)") (auto simp: coarse_def)

lemma coarse_same: "world s' = world s \<Longrightarrow> coarse s' = coarse s"
  by (simp add: coarse_def)

lemma outstanding_status [simp]:
  "writes_out (w\<lparr>chat := chat w\<lparr>chat_status := b\<rparr>\<rparr>) = writes_out w"
  "reads_out (w\<lparr>chat := chat w\<lparr>chat_status := b\<rparr>\<rparr>) = reads_out w"
  "writes_done_out (w\<lparr>chat := chat w\<lparr>chat_status := b\<rparr>\<rparr>) = writes_done_out w"
  by (simp_all add: writes_out_def reads_out_def writes_done_out_def)

lemma coarse_callback:
  assumes "OnDone_step s = Some s'" and inv: "sync_inv s"
  shows "coarse s' = coarse s \<or> chat_step (coarse s) (coarse s')"
proof (cases "done_at s")
  case DoneStatus
  with assms show ?thesis by (auto simp: OnDone_step_def coarse_def modifyChat_def sync_defs)
next
  case DoneFlag
  with assms have "\<not> chat_done (chat (coarse s))" and "writes_out (coarse s) = 0" "reads_out (coarse s) = 0"
    "writes_done_out (coarse s) = 0" by (simp_all add: sync_defs coarse_def)
  then have "chat_step (coarse s) ((coarse s)\<lparr>chat := OnDone (done_arg s) (chat (coarse s))\<rparr>)"
    by (intro chat_step.finish)
  moreover have "(coarse s)\<lparr>chat := OnDone (done_arg s) (chat (coarse s))\<rparr> = coarse s'"
    using DoneFlag assms
    by (cases "world s"; cases "chat (world s)") (auto simp: OnDone_step_def coarse_def modifyChat_def sync_defs OnDone_def)
  ultimately show ?thesis by simp
qed (use assms in \<open>auto simp: OnDone_step_def split: if_splits intro!: coarse_same\<close>)

lemma coarse_main: "Await_step s = Some s' \<Longrightarrow> coarse s' = coarse s"
  by (rule coarse_same) (auto simp: Await_step_def split: await_pc.splits if_splits)

lemma coarse_step:
  assumes "sync_step s s'" and "sync_inv s"
  shows "coarse s' = coarse s \<or> chat_step (coarse s) (coarse s')"
  using assms(1)
proof cases
  case (completion w)
  then have "chat_status (chat (world s))" "chat_status (chat w)" "\<not> chat_done (chat (world s))"
    using assms(2) chat_step_flags [of "world s" w] by (auto simp: sync_defs)
  with completion coarse_id [of s] coarse_id [of s'] show ?thesis by simp
qed (use assms(2) coarse_callback coarse_main in \<open>auto intro: coarse_same\<close>)

lemma sync_reachable_inv: "sync_reachable s \<Longrightarrow> sync_inv s \<and> chat_reachable (coarse s)"
proof (induction rule: sync_reachable.induct)
  case start
  have "coarse sync_start = chat_start"
    by (simp add: coarse_def sync_start_def chat_start_def Chatter_def NextWrite_def start_op_def)
  then show ?case by (simp add: sync_inv_start chat_reachable.start)
next
  case (step s s')
  then show ?case using sync_inv_step [of s s'] coarse_step [of s s'] by (auto intro: chat_reachable.step)
next
  case (spurious s)
  then show ?case using coarse_same [of "s\<lparr>await_at := AwaitRelock\<rparr>" s] by (auto simp: sync_defs)
qed

section \<open>Progress\<close>

lemma chat_step_finishing:
  "chat_step w w' \<Longrightarrow> \<not> chat_done (chat w) \<Longrightarrow> chat_done (chat w') \<Longrightarrow>
   writes_out w = 0 \<and> reads_out w = 0 \<and> writes_done_out w = 0"
  by (erule chat_stepE) (auto simp: OnWriteDone_def OnReadDone_def NextWrite_def start_op_def split: if_splits)

lemma idle_progress:
  assumes "chat_reachable (coarse s)" and inv: "sync_inv s" and idle: "done_at s = DoneIdle"
  shows "\<exists>s'. sync_step s s'"
proof -
  have nd: "\<not> chat_done (chat (world s))" and "coarse s = world s"
    using inv idle coarse_id [of s] by (auto simp: sync_defs)
  with assms(1) await_outcome(1) [of "world s"] obtain w where w: "chat_step (world s) w"
    by (auto simp: Await_def)
  show ?thesis
  proof (cases "chat_done (chat w)")
    case True
    with chat_step_finishing [OF w nd] sync_step.call_done [OF idle] show ?thesis by blast
  next
    case False
    with sync_step.completion [OF idle w] show ?thesis by blast
  qed
qed

lemma mutex_free: "mu s \<noteq> Some MainThread \<Longrightarrow> mu s \<noteq> Some CallbackThread \<Longrightarrow> mu s = None"
  by (metis mutex_owner.exhaust option.exhaust)

lemma called_progress:
  assumes "sync_inv s" and "done_at s \<noteq> DoneIdle" and "await_at s \<noteq> AwaitReturned"
  shows "Await_step s \<noteq> None \<or> OnDone_step s \<noteq> None"
proof (cases "mu s")
  case None
  with assms show ?thesis
    by (cases "await_at s"; cases "done_at s")
      (simp_all add: Await_step_def OnDone_step_def sync_defs)
next
  case (Some p)
  with assms show ?thesis
    by (cases p; cases "await_at s"; cases "done_at s")
      (simp_all add: Await_step_def OnDone_step_def sync_defs)
qed

lemma sync_progress:
  assumes "sync_reachable s" and "await_at s \<noteq> AwaitReturned"
  shows "\<exists>s'. sync_step s s'"
proof (cases "done_at s = DoneIdle")
  case True
  with sync_reachable_inv [OF assms(1)] show ?thesis by (blast intro: idle_progress)
next
  case False
  with called_progress [of s] sync_reachable_inv [OF assms(1)] assms(2) show ?thesis
    by (blast intro: sync_step.main_thread sync_step.callback)
qed

text \<open>
  The steps the two threads have left once gRPC has called \<^verbatim>\<open>OnDone\<close>: while \<^verbatim>\<open>done_\<close> is not set a
  test sends the main thread to sleep once more.
\<close>

fun await_left :: "bool \<Rightarrow> await_pc \<Rightarrow> nat" where
  "await_left is_done AwaitTest = (if is_done then 2 else 4)"
| "await_left is_done AwaitSleep = 3"
| "await_left is_done AwaitUnlock = 1"
| "await_left is_done AwaitReturned = 0"
| "await_left is_done p = (if is_done then 3 else 5)"

fun done_left :: "done_pc \<Rightarrow> nat" where
  "done_left DoneStatus = 4" | "done_left DoneFlag = 3" | "done_left DoneNotify = 2"
| "done_left DoneUnlock = 1" | "done_left DoneReturned = 0" | "done_left p = 5"

definition sync_rank :: "sync_world \<Rightarrow> nat" where
  "sync_rank s = await_left (chat_done (chat (world s))) (await_at s) + done_left (done_at s)"

lemma sync_rank_le: "sync_rank s \<le> 10"
  by (cases "await_at s"; cases "done_at s") (simp_all add: sync_rank_def)

lemma rank_main: "Await_step s = Some s' \<Longrightarrow> sync_rank s' < sync_rank s"
  by (erule Await_stepE) (auto simp: sync_rank_def)

lemma rank_callback: "OnDone_step s = Some s' \<Longrightarrow> sync_inv s \<Longrightarrow> sync_rank s' < sync_rank s"
  by (erule OnDone_stepE; cases "await_at s") (simp_all add: sync_rank_def sync_defs)

lemma sync_step_rank:
  assumes "sync_step s s'" and "sync_inv s" and "done_at s \<noteq> DoneIdle"
  shows "sync_rank s' < sync_rank s \<and> done_at s' \<noteq> DoneIdle"
  using assms(1)
proof cases
  case callback
  then show ?thesis using rank_callback [OF _ assms(2)] by (auto elim!: OnDone_stepE)
next
  case main_thread
  then show ?thesis using rank_main [of s s'] assms(3) by (auto elim!: Await_stepE)
qed (use assms(3) in simp_all)

lemma sync_runs_bounded:
  assumes "sync_inv s" and "done_at s \<noteq> DoneIdle"
  shows "(sync_step ^^ n) s s' \<Longrightarrow> sync_inv s' \<and> done_at s' \<noteq> DoneIdle \<and> n + sync_rank s' \<le> sync_rank s"
proof (induction n arbitrary: s')
  case (Suc n)
  then obtain s1 where "(sync_step ^^ n) s s1" "sync_step s1 s'" by auto
  with Suc.IH [of s1] sync_step_rank [of s1 s'] sync_inv_step [of s1 s'] show ?case by auto
qed (use assms in simp)

section \<open>The property\<close>

lemma await_returned:
  assumes "sync_inv s" and "chat_reachable (coarse s)" and "await_at s = AwaitReturned"
  shows "done_at s = DoneReturned" and "awaited s = Some (done_arg s)" and "Await (chat (world s)) = awaited s"
    and "\<not> sync_step s s'"
    and "writes_out (world s) = 0 \<and> reads_out (world s) = 0 \<and> writes_done_out (world s) = 0"
    and "main_async (chat (world s)) = Some 0"
    and "do_something AsyncAdsClient (chat (world s)) =
      Inr (Some (if done_arg s then [] else [''RouteChat rpc failed.'']))"
proof -
  have d: "done_at s = DoneReturned" using assms by (simp add: sync_defs)
  then have c: "chat_done (chat (world s))" "chat_status (chat (world s)) = done_arg s"
    using assms(1) by (auto simp: sync_defs)
  show "done_at s = DoneReturned" by (rule d)
  show "awaited s = Some (done_arg s)"
    "writes_out (world s) = 0 \<and> reads_out (world s) = 0 \<and> writes_done_out (world s) = 0"
    using assms(1,3) d by (auto simp: sync_defs)
  then show "Await (chat (world s)) = awaited s" "main_async (chat (world s)) = Some 0"
    "do_something AsyncAdsClient (chat (world s)) =
      Inr (Some (if done_arg s then [] else [''RouteChat rpc failed.'']))"
    using c by (simp_all add: Await_def main_async_def do_something_def AsyncAdsClient_def)
  show "\<not> sync_step s s'"
    using d assms(3) by (auto simp: Await_step_def OnDone_step_def elim!: sync_stepE)
qed

text \<open>
  C30. \<^verbatim>\<open>Await\<close> and \<^verbatim>\<open>OnDone\<close> in every interleaving, spurious wake-ups included. The mutex excludes
  the two from each other; no wake-up is lost, as the main thread does not sleep once the
  notification has been given; and the program refines the reactor in which \<^verbatim>\<open>OnDone\<close> is one
  step. While \<^verbatim>\<open>Await\<close> has not returned some thread or completion can move without a spurious
  wake-up, and once gRPC has called \<^verbatim>\<open>OnDone\<close> at most ten such steps are left. When \<^verbatim>\<open>Await\<close> has
  returned it returns the status \<^verbatim>\<open>OnDone\<close> was given, no operation is outstanding, \<^verbatim>\<open>OnDone\<close> has
  released the mutex and nothing moves any more, so that the reactor on the stack may go; the
  program returns 0, also when the call failed, which is only printed.
\<close>

theorem reactor_await:
  assumes "sync_reachable s"
  shows "chat_reachable (coarse s) \<and>
    \<not> (locked_by_main (await_at s) \<and> locked_by_callback (done_at s)) \<and>
    (await_at s = AwaitSleep \<longrightarrow> done_at s \<notin> {DoneUnlock, DoneReturned}) \<and>
    (await_at s \<noteq> AwaitReturned \<longleftrightarrow> (\<exists>s'. sync_step s s')) \<and>
    (done_at s \<noteq> DoneIdle \<and> (sync_step ^^ n) s s1 \<longrightarrow> n \<le> 10) \<and>
    (await_at s = AwaitReturned \<longrightarrow> done_at s = DoneReturned \<and> mu s = None \<and>
      awaited s = Some (done_arg s) \<and> Await (chat (coarse s)) = awaited s \<and>
      writes_out (world s) = 0 \<and> reads_out (world s) = 0 \<and> writes_done_out (world s) = 0 \<and>
      main_async (chat (world s)) = Some 0 \<and>
      do_something AsyncAdsClient (chat (world s)) =
        Inr (Some (if done_arg s then [] else [''RouteChat rpc failed.''])))"
proof -
  have inv: "sync_inv s" and re: "chat_reachable (coarse s)" using sync_reachable_inv [OF assms] by auto
  have "n \<le> 10" if "done_at s \<noteq> DoneIdle" "(sync_step ^^ n) s s1"
    using sync_runs_bounded [OF inv that] sync_rank_le [of s] by simp
  moreover have "mu s = None" if "await_at s = AwaitReturned"
    using inv that await_returned(1) [OF inv re that] mutex_free [of s] by (auto simp: sync_defs)
  moreover have "Await (chat (coarse s)) = Await (chat (world s))"
    by (simp add: coarse_def Await_def)
  moreover have "\<not> (locked_by_main (await_at s) \<and> locked_by_callback (done_at s))"
    and "await_at s = AwaitSleep \<longrightarrow> done_at s \<notin> {DoneUnlock, DoneReturned}"
    using inv by (auto simp: sync_inv_def)
  ultimately show ?thesis
    using re sync_progress [OF assms] await_returned [OF inv re] by metis
qed

text \<open>
  The instance: the main thread goes to sleep, the write, the half-close and the read complete,
  gRPC calls \<^verbatim>\<open>OnDone\<close> with a failure, and the two threads run to their ends.
\<close>

fun drive :: "bool list \<Rightarrow> sync_world \<Rightarrow> sync_world" where
  "drive [] s = s"
| "drive (b # bs) s = drive bs (case (if b then OnDone_step s else Await_step s) of None \<Rightarrow> s | Some s' \<Rightarrow> s')"

lemma sync_reachable_drive: "sync_reachable s \<Longrightarrow> sync_reachable (drive bs s)"
proof (induction bs arbitrary: s)
  case (Cons b bs)
  then have "sync_reachable (case (if b then OnDone_step s else Await_step s) of None \<Rightarrow> s | Some s' \<Rightarrow> s')"
    by (auto split: option.split intro: sync_reachable.step sync_step.callback sync_step.main_thread)
  with Cons.IH show ?case by simp
qed simp

definition chat_completed :: chat_world where
  "chat_completed = \<lparr>chat = OnReadDone False (OnWriteDone True Chatter), writes_completed = 1,
     reads_completed = 1, writes_done_completed = 1\<rparr>"

lemma completions:
  assumes "sync_reachable s" and "world s = chat_start" and "done_at s = DoneIdle"
  shows "sync_reachable (s\<lparr>world := chat_completed\<rparr>)"
proof -
  let ?c = "OnWriteDone True Chatter"
  let ?w1 = "chat_start\<lparr>chat := ?c, writes_completed := 1\<rparr>"
  let ?w2 = "?w1\<lparr>writes_done_completed := 1\<rparr>"
  note ops = writes_out_def reads_out_def writes_done_out_def chat_start_def Chatter_def NextWrite_def
    start_op_def OnWriteDone_def OnReadDone_def
  have "chat_step chat_start ?w1" "chat_step ?w1 ?w2" "chat_step ?w2 chat_completed"
    using chat_step.sent_one [of chat_start True] chat_step.writes_done [of ?w1] chat_step.read_end [of ?w2]
    by (simp_all add: ops chat_completed_def)
  moreover have "\<not> chat_done (chat ?w1)" "\<not> chat_done (chat ?w2)" "\<not> chat_done (chat chat_completed)"
    by (simp_all add: ops chat_completed_def)
  ultimately show ?thesis
    using assms sync_reachable.step [OF assms(1) sync_step.completion [of s ?w1]]
      sync_reachable.step [OF _ sync_step.completion [of "s\<lparr>world := ?w1\<rparr>" ?w2]]
      sync_reachable.step [OF _ sync_step.completion [of "s\<lparr>world := ?w2\<rparr>" chat_completed]]
    by simp
qed

definition sync_failed :: sync_world where
  "sync_failed = drive [True, True, True, True, True, False, False, False]
     ((drive [False, False] sync_start)\<lparr>world := chat_completed, done_at := DoneLock, done_arg := False\<rparr>)"

lemma sync_failed_reachable: "sync_reachable sync_failed"
proof -
  let ?s = "(drive [False, False] sync_start)\<lparr>world := chat_completed\<rparr>"
  have "sync_reachable ?s"
    by (rule completions [OF sync_reachable_drive [OF sync_reachable.start]])
      (simp_all add: sync_start_def Await_step_def)
  moreover have "done_at ?s = DoneIdle" "writes_out (world ?s) = 0" "reads_out (world ?s) = 0"
    "writes_done_out (world ?s) = 0"
    by (simp_all add: sync_start_def Await_step_def chat_completed_def writes_out_def reads_out_def
        writes_done_out_def chat_start_def Chatter_def NextWrite_def start_op_def OnWriteDone_def OnReadDone_def)
  ultimately have "sync_reachable (?s\<lparr>done_at := DoneLock, done_arg := False\<rparr>)"
    by (blast intro: sync_reachable.step sync_step.call_done)
  then show ?thesis unfolding sync_failed_def by (rule sync_reachable_drive)
qed

theorem reactor_await_witness:
  "await_at sync_failed = AwaitReturned \<and> awaited sync_failed = Some False \<and>
   (\<nexists>s'. sync_step sync_failed s') \<and>
   do_something AsyncAdsClient (chat (world sync_failed)) = Inr (Some [''RouteChat rpc failed.''])"
proof -
  have "await_at sync_failed = AwaitReturned" "\<not> done_arg sync_failed" by code_simp+
  with reactor_await [OF sync_failed_reachable] show ?thesis by simp
qed

end
