(* ===== verification/Greetings.thy ===== *)
theory Greetings
  imports Prelude
begin

text \<open>
  The greeting example of \<^verbatim>\<open>schema/greetings_client\<close> and \<^verbatim>\<open>schema/greetings_server\<close>: the unary call, the
  handler, the start of the server, and the interactive loop. The transport is a parameter
  that returns the reply, or \<open>None\<close> when the status is not ok; the server builder is a
  parameter that says whether \<^verbatim>\<open>BuildAndStart\<close> returned a server, as it documents it may not.
\<close>

section \<open>The server\<close>

definition service_SayHello :: "string \<Rightarrow> string" where
  "service_SayHello name = ''Hello '' @ name @ ''!''"

datatype server_event =
    AddListeningPort string
  | RegisterService
  | BuildAndStart bool
  | Announce string
  | Wait

definition server_address :: string where
  "server_address = ''0.0.0.0:50051''"

text \<open>\<^verbatim>\<open>RunServer\<close>: what it has done when it waits for the server, which is for good.\<close>

definition RunServer :: "(server_event list \<Rightarrow> bool) \<Rightarrow> server_event list call" where
  "RunServer starts =
    (let ops = [AddListeningPort server_address, RegisterService];
         server = starts ops;
         ops1 = ops @ [BuildAndStart server, Announce (''Server listening on '' @ server_address)]
     in if server then Inr (ops1 @ [Wait]) else halt NullServer ops1)"

section \<open>The client\<close>

definition client_target :: string where
  "client_target = ''localhost:50051''"

definition SayHello :: "(string \<Rightarrow> string option) \<Rightarrow> string \<Rightarrow> string" where
  "SayHello rpc user = (case rpc user of Some reply \<Rightarrow> reply | None \<Rightarrow> ''gRPC failed'')"

text \<open>One turn of \<^verbatim>\<open>interativeGRPC\<close>: the lines it prints after the user's line.\<close>

definition interactive_turn :: "(string \<Rightarrow> string option) \<Rightarrow> string \<Rightarrow> string list" where
  "interactive_turn rpc user = (let reply = SayHello rpc user in
     (if reply = ''gRPC failed'' then [''gRPC failed''] else []) @ [''gRPC returned: '', reply])"

text \<open>
  \<^verbatim>\<open>std::getline\<close> into the fresh \<^verbatim>\<open>user\<close>: the next line, and the empty string once the input has
  ended, which the loop does not look at. Fuel bounds the \<^verbatim>\<open>while (true)\<close>; the state is what was
  printed.
\<close>

fun getline :: "string list \<Rightarrow> string \<times> string list" where
  "getline [] = ([], [])"
| "getline (l # ls) = (l, ls)"

fun interativeGRPC ::
    "(string \<Rightarrow> string option) \<Rightarrow> nat \<Rightarrow> string list \<Rightarrow> string list \<Rightarrow> string list call" where
  "interativeGRPC rpc 0 input out = halt OutOfFuel out"
| "interativeGRPC rpc (Suc n) input out =
    (let (user, rest) = getline input
     in interativeGRPC rpc n rest (out @ ''Please enter your user name:'' # interactive_turn rpc user))"

section \<open>What the two do\<close>

text \<open>The name a greeting was made for can be read back, and a greeting is never taken for a failure.\<close>

definition greeted :: "string \<Rightarrow> string" where
  "greeted reply = butlast (drop 6 reply)"

lemma greeting_read_back:
  "greeted (SayHello (\<lambda>u. Some (service_SayHello u)) user) = user"
  "interactive_turn (\<lambda>u. Some (service_SayHello u)) user = [''gRPC returned: '', service_SayHello user]"
  by (simp_all add: greeted_def SayHello_def service_SayHello_def interactive_turn_def Let_def)

text \<open>
  The interactive loop never ends, whatever the transport: after the lines of its input it
  goes on greeting the empty name.
\<close>

definition turns :: "(string \<Rightarrow> string option) \<Rightarrow> string list \<Rightarrow> string list" where
  "turns rpc users = concat (map (\<lambda>u. ''Please enter your user name:'' # interactive_turn rpc u) users)"

lemma interative_turns:
  "interativeGRPC rpc n input out =
    Inl (OutOfFuel, out @ turns rpc (take n input @ replicate (n - length input) []))"
proof (induction n arbitrary: input out)
  case (Suc n)
  show ?case by (cases input) (simp_all add: Suc.IH turns_def)
qed (simp add: turns_def)

text \<open>A server that could not be started is announced all the same, and then waited on through a null pointer.\<close>

lemma unstarted_server:
  "RunServer starts = Inl (e, ops) \<longleftrightarrow> e = NullServer \<and> \<not> starts [AddListeningPort server_address, RegisterService] \<and>
    ops = [AddListeningPort server_address, RegisterService, BuildAndStart False,
      Announce (''Server listening on '' @ server_address)]"
  by (auto simp: RunServer_def Let_def halt_def)

end
