(* ===== verification/Descriptor_Names.thy ===== *)
theory Descriptor_Names
  imports Main
begin

text \<open>
  \<^verbatim>\<open>proto_descriptors.cc\<close>: the method and type names the program is meant to check at start-up.
  The assertions over the two lists are commented out, so the function has no effect; the
  lists are the record of which types the clients rely on.
\<close>

definition validated_methods :: "string list" where
  "validated_methods = [
     ''envoy.service.cluster.v3.ClusterDiscoveryService.FetchClusters'',
     ''envoy.service.cluster.v3.ClusterDiscoveryService.StreamClusters'',
     ''envoy.service.cluster.v3.ClusterDiscoveryService.DeltaClusters'',
     ''envoy.service.discovery.v3.AggregatedDiscoveryService.StreamAggregatedResources'',
     ''envoy.service.discovery.v3.AggregatedDiscoveryService.DeltaAggregatedResources'',
     ''envoy.service.endpoint.v3.EndpointDiscoveryService.FetchEndpoints'',
     ''envoy.service.endpoint.v3.EndpointDiscoveryService.StreamEndpoints'',
     ''envoy.service.endpoint.v3.EndpointDiscoveryService.DeltaEndpoints'',
     ''envoy.service.endpoint.v3.LocalityEndpointDiscoveryService.DeltaLocalityEndpoints'',
     ''envoy.service.health.v3.HealthDiscoveryService.FetchHealthCheck'',
     ''envoy.service.health.v3.HealthDiscoveryService.StreamHealthCheck'',
     ''envoy.service.listener.v3.ListenerDiscoveryService.FetchListeners'',
     ''envoy.service.listener.v3.ListenerDiscoveryService.StreamListeners'',
     ''envoy.service.listener.v3.ListenerDiscoveryService.DeltaListeners'',
     ''envoy.service.ratelimit.v3.RateLimitService.ShouldRateLimit'',
     ''envoy.service.route.v3.RouteDiscoveryService.FetchRoutes'',
     ''envoy.service.route.v3.RouteDiscoveryService.StreamRoutes'',
     ''envoy.service.route.v3.RouteDiscoveryService.DeltaRoutes'',
     ''envoy.service.runtime.v3.RuntimeDiscoveryService.StreamRuntime'',
     ''envoy.service.runtime.v3.RuntimeDiscoveryService.FetchRuntime'']"

definition validated_types :: "string list" where
  "validated_types = [
     ''envoy.config.cluster.v3.Cluster'', ''envoy.config.endpoint.v3.ClusterLoadAssignment'',
     ''envoy.config.listener.v3.Listener'', ''envoy.config.route.v3.RouteConfiguration'',
     ''envoy.config.route.v3.VirtualHost'', ''envoy.extensions.transport_sockets.tls.v3.Secret'',
     ''envoy.config.endpoint.v3.LbEndpoint'']"

definition validateProtoDescriptors :: "'s \<Rightarrow> 's" where
  "validateProtoDescriptors s = (let methods = validated_methods; types = validated_types in s)"

text \<open>The type URL of a listed type.\<close>

definition listed_type_url :: "string \<Rightarrow> bool" where
  "listed_type_url url \<longleftrightarrow> url \<in> (\<lambda>t. ''type.googleapis.com/'' @ t) ` set validated_types"

end
