(* ===== verification/Spec2Isabelle.thy ===== *)
theory Spec2Isabelle
  imports Mux_Properties Update_Loop Nonce_Freshness Anylink_Properties Gateway_Log Decoders Transcoder Reactor_Sync
    Greetings Descriptor_Names
begin

text \<open>
  This library models the xDS clients of the repository and proves what they do on the wire,
  which states they can reach, and when they end. The sources are C++ under \<^verbatim>\<open>src/src\<close> (the
  clients) and \<^verbatim>\<open>src/schema\<close> (a greeting example and the protocol schema).

  \<^bold>\<open>The program.\<close> An xDS client subscribes to resource types (clusters, listeners, endpoints,
  routes) at a control plane over one bidirectional gRPC stream: it writes discovery requests
  and reads discovery responses. The repository holds four such clients.

  \<^item> The ADS multiplexer, \<^verbatim>\<open>ads_protocol_client/AdsClient.{h,cpp}\<close> with \<^verbatim>\<open>Watcher.h\<close>, is the core.
    It keeps one state per type (\<^verbatim>\<open>ApiState\<close>: the request template, the list of watches, flags), a
    list of subscriptions, a queue of types to request, and the stream. \<^verbatim>\<open>queueDiscoveryRequest\<close>
    pushes a type and drains the queue; \<^verbatim>\<open>sendDiscoveryRequest\<close> patches the template, writes it and
    reads until the stream ends, handing each message to \<^verbatim>\<open>onDiscoveryResponse\<close>, which may queue
    again: the path is re-entrant. \<^verbatim>\<open>onStreamEstablished\<close> re-requests every subscription; watches
    are added, updated and destroyed by their owners. The same class has an older chat
    session. \<^verbatim>\<open>main.cpp\<close> runs one session and shuts down.
  \<^item> The anylink client, \<^verbatim>\<open>ads_protocol_client/anylink\<close>: four subscriptions, a manager that
    exchanges one request, one response and one acknowledgement per type over an asynchronous
    call, a singleton that owns it, and a worker thread.
  \<^item> \<^verbatim>\<open>asnyc_ads\<close>, a callback reactor, and \<^verbatim>\<open>ads\<close>, a client with a writer thread.
  \<^item> Around them: resource decoders, a text-format transcoder, configuration and node
    builders, a table of known resources.

  \<^bold>\<open>How it is modelled.\<close> State is explicit: a record per class, an operation per function, over
  the state and returning it. A call that can run into undefined behaviour returns
  \<open>(fault \<times> state) + state\<close> (\<open>Prelude\<close>); each fault names the construct of the source that is
  undefined. Watchers are heap objects at addresses and watch lists hold addresses, so that a
  dangling pointer is expressible; a \<^verbatim>\<open>std::unique_ptr\<close> that may be null is an option, and a C
  array a list with guarded indices. gRPC, protobuf, the descriptor pool and the kernel are
  not part of the repository: they are records of functions passed to the operations, over a
  type of their own states. Every call on a stream is appended to a log; statements about the
  wire are statements about the log. Output to the terminal is kept where the program's result
  depends on it or is nothing else, and left out elsewhere.

  \<^bold>\<open>Theories, in the order of their imports.\<close>

  \<^item> \<open>Prelude\<close>: faults, sequencing, \<^verbatim>\<open>std::set\<close> of strings with its interface \<open>ordered_set\<close>, C arrays.
  \<^item> \<open>Discovery_Messages\<close>: requests, responses, nodes and their builders (\<^verbatim>\<open>node\<close>, \<^verbatim>\<open>build_struct\<close>).
  \<^item> \<open>Rpc_Stream\<close>: the synchronous stream as a parameter, the log, streams that end
    (\<open>finite_stream\<close>), and a scripted server for instances.
  \<^item> \<open>Ads_Client\<close>: the multiplexer, the watches, the chat session, \<^verbatim>\<open>Config\<close> and \<^verbatim>\<open>main\<close>, function by
    function.
  \<^item> \<open>Request_Path\<close>: equations of the elementary steps, the duplicate filter as \<open>dedup\<close>, and the
    locale \<open>request_path_rel\<close>: a reflexive and transitive relation kept by the elementary steps
    is kept by the whole re-entrant path, however it ends. Every invariant of the path below
    is an instance of it.
  \<^item> \<open>Client_Invariant\<close>, \<open>Client_Operations\<close>: the invariant \<open>wf_client\<close>, its preservation by the
    path and by every public operation, reachable states.
  \<^item> \<open>Request_Queue\<close>: fuel, the only fault, the outcome of a request on an idle client, and
    which request is at the front.
  \<^item> \<open>Request_Templates\<close>: properties of one type's template that hold of all its requests, by
    the locale \<open>template\<close>, a sublocale of \<open>request_path_rel\<close>.
  \<^item> \<open>Watch_View\<close>: the abstract view of the watches and what each operation does to it.
  \<^item> \<open>Ads_Session\<close>, \<open>Chat_Session\<close>, \<open>Reconnect\<close>: the run of \<^verbatim>\<open>main\<close>, the chat session and the
    client after shutdown, the loop over the growing list of subscriptions.
  \<^item> \<open>Watch_Faults\<close>: faults and fuel of the watch operations and the reconnect.
  \<^item> \<open>Operation_Runs\<close>: the public operations as data, runs of them, and for each operation its faults,
    its abstract operation on the view, and what the requests it writes ask for.
  \<^item> \<open>Mux_Properties\<close>: the properties C1 to C18 of the multiplexer.
  \<^item> \<open>Update_Loop\<close>: the multiplexer and \<^verbatim>\<open>main\<close> against a control plane that repeats an update until
    its version is reported; one turn of the exchange as a step of an invariant (C28).
  \<^item> \<open>Exchange_Log\<close>, \<open>Nonce_Freshness\<close>: the log read as an exchange per type and stream, and the
    locale \<open>between_calls\<close> for invariants that relate the templates to the log and therefore do
    not hold between reading a response and recording it; runs over any number of streams,
    ended by a call that may fault; C36 and C37.
  \<^item> \<open>Local_Info\<close>, \<open>Local_Address\<close> (C33): the node of the anylink client and the socket calls of
    \<^verbatim>\<open>LocalUtil.cpp\<close>, with machine words and the byte order of the machine.
  \<^item> \<open>Anylink\<close>, \<open>Anylink_Exchange\<close>, \<open>Anylink_Properties\<close>: the anylink client, with the contract of a
    subscription as a locale and its four providers, the message arrays of the manager and the
    worker; C19, C21 to C23 and C38. \<open>Gateway_Log\<close>: the log lines and logger pointers over any
    sequence of calls of the link (C20).
  \<^item> \<open>Decoders\<close> (C24, C25): decoded resources for every decoder. The interface they take has no
    implementation in the repository: \<^verbatim>\<open>OpaqueResourceDecoderImpl\<close> derives from nothing and cannot be
    passed, so it is a class of its own in the model, with lemmas of its own.
  \<^item> \<open>Transcoder\<close> (C26, C27), over a descriptor pool that may refuse a file; \<open>Greetings\<close>, the greeting
    example; \<open>Descriptor_Names\<close>, the names listed for validation.
  \<^item> \<open>Async_Clients\<close>, two step relations (C29, C31, C32), in the second of which \<^verbatim>\<open>Read\<close> waits until the
    server has sent something; and \<open>Reactor_Sync\<close>, the mutex and the
    condition variable of the reactor statement by statement, which refines the first (C30).
  \<^item> This theory: properties that span components (C34, C35).

  \<^bold>\<open>Fuel.\<close> The re-entrant path, the loops over subscriptions and the chat loop run as long as
  the server sends, so they recurse on a fuel argument and \<open>OutOfFuel\<close> is the outcome of too
  little. C3 shows how much is enough against a server that ends its stream, with \<open>m\<close> the
  messages still to come: six per message (one unit for each of the five mutually recursive
  calls and the loop) and one per queued request, plus five, for a queued request; one per
  subscription more for a reconnect, whose list grows by one entry at most. Every other
  theorem on an outcome either assumes such a bound or speaks of all fuel. That the assumption
  on the server is needed is C28: where the server repeats an update that is never
  acknowledged, every amount of fuel is used up, five units a turn. Two loops of the
  sources have no exit, the anylink worker and the interactive greeting; of these it is proved
  that they never return (C23, \<open>interative_turns\<close>), and the fuel only says how far they are
  followed.

  \<^bold>\<open>What the properties show.\<close> The good: the invariant holds in all reachable states (C5), every
  request of every operation asks for exactly the resources watched at that moment (C6), any run of
  operations refines its specification on the view of the watches (C8 to C11), a reconnect
  requests every subscription in order (C12), the client is silent after shutdown (C16), the chat session acknowledges in order (C17), no
  request carries a stale nonce or a version that was not accepted (C36, C37), the message
  arrays are never overrun (C38), a wrapper does not change what a resource decodes to (C24), the
  descriptor loader registers no file without its dependencies and, for valid files, is
  complete (C26), the reactor and the threads keep to the rules of the stream, do not deadlock
  against a server that answers the half-close, and end (C29 to C32), no wake-up between them
  is lost (C30), and all clients open with the same request but for its metadata (C34). The bad:
  besides the misuse of an operation, the pop of an empty queue is the one undefined behaviour
  (C4) and happens whenever a response triggers a request (C1, C2); a response of another type
  waits for the end of the stream (C7); watched types never acknowledge (C13) and a persistent update is answered for
  ever (C28); the node is lost for good (C14); a second chat session opens with doubled names
  and an old nonce (C17); an unexpected response or the worker goes through a null
  subscription (C19, C23); an initialisation with a null logger logs to it before the check
  (C20); a null message is dereferenced whatever the flag of the resource says (C25); the
  transcoder never parses (C27); the local address is asked for in the wrong byte
  order, its descriptor closed twice on failure, and the answer dropped (C33).

  \<^bold>\<open>Not modelled.\<close> gRPC and protobuf themselves, with the generated accessors and the parts of
  the schema the code never touches; the progress lines on the terminal, among them the
  resources the chat session parses only to print them; the log line of the anylink worker, in
  whose arguments it faults (C23 and C38 assume that the macro \<^verbatim>\<open>GATEWAY_LOG\<close>, which is not part of the
  repository, evaluates them); commented-out code; what is declared and never defined (\<^verbatim>\<open>AdsConnection\<close>,
  \<^verbatim>\<open>AdsManager::handleEvent\<close>, the constructor of \<^verbatim>\<open>IstioCallable\<close>). The multiplexer has no threads of
  its own. In the reactor a step is a statement: the unlock of a mutex and the notification of
  a condition variable are atomic, as the standard makes them. The dependencies of a
  descriptor are a tree: a cyclic array of pointers, which no generated file has, is not
  representable.
\<close>

section \<open>Requests across components\<close>






text \<open>
  C35. The table of known resources is a set per type: after any sequence of additions it
  knows exactly what it knew and what was added, and keeps each type's names in ascending
  order without duplicates.
\<close>

theorem known_resources_are_sets:
  assumes "known_ok s"
  shows "known_ok (fold (\<lambda>(t, n). add_resource t n) added s) \<and>
    (knows (fold (\<lambda>(t, n). add_resource t n) added s) t n \<longleftrightarrow> knows s t n \<or> (t, n) \<in> set added)"
  using assms
proof (induction added arbitrary: s)
  case (Cons a added)
  obtain u x where a: "a = (u, x)" by force
  note k = add_resource_knows [OF Cons.prems, of u x]
  from Cons.IH [OF k(1)] show ?case by (auto simp: a k(2))
qed simp

definition no_resources :: known_state where
  "no_resources = \<lparr>known_resources = Map.empty, pending_pushes = Map.empty, demand = [], demand_tx = []\<rparr>"

theorem known_resources_are_sets_witness:
  "known_ok (fold (\<lambda>(t, n). add_resource t n) [(''cds'', ''b''), (''cds'', ''a''), (''cds'', ''b'')] no_resources) \<and>
   knows (fold (\<lambda>(t, n). add_resource t n) [(''cds'', ''b''), (''cds'', ''a''), (''cds'', ''b'')] no_resources) ''cds'' ''a''"
  using known_resources_are_sets [of no_resources "[(''cds'', ''b''), (''cds'', ''a''), (''cds'', ''b'')]" "''cds''" "''a''"]
  by (simp add: known_ok_def no_resources_def)

end
